theory Spec2Isabelle
  imports Main
begin

section \<open>Data model of wordsearch.ts\<close>

text \<open>
  The enums, interfaces and the class fields of \<^verbatim>\<open>src/lib/wordsearch/wordsearch.ts\<close>.
  Numbers that are coordinates or configuration values are \<open>int\<close> (a step can leave the
  board on the negative side); counters that only grow from 0 are \<open>nat\<close>. Strings are
  \<open>string\<close>; a cell's letter is a string that is empty until a letter is written.
  Field names follow the source, except where HOL already owns the name:
  \<open>size\<close> is \<open>bsize\<close>, \<open>case\<close> is \<open>wcase\<close>, \<open>random\<close> is \<open>randomWords\<close>, the
  coordinates \<open>x\<close>, \<open>y\<close> are \<open>vx\<close>, \<open>vy\<close>, and the fields of \<open>Word\<close> carry a \<open>w\<close>,
  and the class field \<open>output\<close> is \<open>wsOutput\<close>.
\<close>

datatype WSDirections =
  UP | DOWN | LEFT | RIGHT | UP_RIGHT | UP_LEFT | DOWN_RIGHT | DOWN_LEFT | NONE

datatype WSCase = LOWER | UPPER

record WordsConfig =
  amount :: int
  minLength :: int
  maxLength :: int
  dictionary :: "string list"
  wcase :: WSCase
  randomWords :: bool

record WordsearchConfig =
  bsize :: int
  wordsConfig :: WordsConfig
  allowedDirections :: "WSDirections list"
  allowWordOverlap :: bool

record Vector2D =
  vx :: int
  vy :: int

record Cell =
  pos :: Vector2D
  letter :: string
  shown :: bool
  found :: bool
  selected :: bool
  selectable :: bool
  highlighted :: bool

record Word =
  word :: string
  wpos :: "Vector2D list"
  wfound :: bool
  wshown :: bool

record WordsearchOutput =
  board :: "Cell list list"
  words :: "Word list"
  currentWord :: string
  endGame :: bool
  error :: string



text \<open>
  What a call can end with instead of a value: \<open>Error m\<close> is \<^verbatim>\<open>throw new Error(m)\<close>,
  \<open>TypeError\<close> is the exception JavaScript raises when a property of \<^verbatim>\<open>undefined\<close> or
  \<^verbatim>\<open>null\<close> is read or written (an index outside the board matrix, \<^verbatim>\<open>this.output\<close>
  before the first generation), and \<open>Diverges\<close> stands for a loop that never ends.
\<close>

datatype failure = Error string | TypeError | Diverges

text \<open>
  The fields of the class. \<open>wsOutput\<close> (the field \<open>output\<close>) is \<^verbatim>\<open>undefined\<close> until \<open>generate\<close> assigns it.
  \<open>console\<close> collects the try numbers that \<open>generate\<close> prints with \<^verbatim>\<open>console.log\<close>.
\<close>

record Wordsearch =
  config :: WordsearchConfig
  wsOutput :: "WordsearchOutput option"
  selectedCount :: nat
  selectedDirection :: WSDirections
  generationTimes :: nat
  lastSelectedVector :: "Vector2D option"
  console :: "nat list"

section \<open>Geometry\<close>

text \<open>\<^verbatim>\<open>directions2D[direction]\<close>: the table of unit vectors, indexed by the enum.\<close>

fun getDirectionVector :: "WSDirections \<Rightarrow> Vector2D" where
  "getDirectionVector UP = \<lparr>vx = -1, vy = 0\<rparr>"
| "getDirectionVector DOWN = \<lparr>vx = 1, vy = 0\<rparr>"
| "getDirectionVector LEFT = \<lparr>vx = 0, vy = -1\<rparr>"
| "getDirectionVector RIGHT = \<lparr>vx = 0, vy = 1\<rparr>"
| "getDirectionVector UP_RIGHT = \<lparr>vx = -1, vy = 1\<rparr>"
| "getDirectionVector UP_LEFT = \<lparr>vx = -1, vy = -1\<rparr>"
| "getDirectionVector DOWN_RIGHT = \<lparr>vx = 1, vy = 1\<rparr>"
| "getDirectionVector DOWN_LEFT = \<lparr>vx = 1, vy = -1\<rparr>"
| "getDirectionVector NONE = \<lparr>vx = 0, vy = 0\<rparr>"

definition isVectorInBoard :: "WordsearchConfig \<Rightarrow> Vector2D \<Rightarrow> bool" where
  "isVectorInBoard cfg v =
     (if 0 \<le> vx v \<and> vx v < bsize cfg
      then (if 0 \<le> vy v \<and> vy v < bsize cfg then True else False)
      else False)"

definition moveInDirection :: "WordsearchConfig \<Rightarrow> Vector2D \<Rightarrow> WSDirections \<Rightarrow> Vector2D option" where
  "moveInDirection cfg sp d =
     (let directionVector = getDirectionVector d;
          newVector = \<lparr>vx = vx sp + vx directionVector, vy = vy sp + vy directionVector\<rparr>
      in if isVectorInBoard cfg newVector then Some newVector else None)"

text \<open>The \<^verbatim>\<open>switch\<close> of \<open>getInverseDirection\<close>; \<open>NONE\<close> falls through to \<^verbatim>\<open>null\<close>.\<close>

fun getInverseDirection :: "WSDirections \<Rightarrow> WSDirections option" where
  "getInverseDirection UP = Some DOWN"
| "getInverseDirection DOWN = Some UP"
| "getInverseDirection LEFT = Some RIGHT"
| "getInverseDirection RIGHT = Some LEFT"
| "getInverseDirection UP_RIGHT = Some DOWN_LEFT"
| "getInverseDirection UP_LEFT = Some DOWN_RIGHT"
| "getInverseDirection DOWN_RIGHT = Some UP_LEFT"
| "getInverseDirection DOWN_LEFT = Some UP_RIGHT"
| "getInverseDirection NONE = None"

section \<open>Board model\<close>

text \<open>
  \<^verbatim>\<open>board[p.x][p.y]\<close>. Outside the matrix JavaScript reads \<^verbatim>\<open>undefined\<close>, and the
  property access that follows raises; \<open>None\<close> is that case.
\<close>

definition cellAt :: "Cell list list \<Rightarrow> Vector2D \<Rightarrow> Cell option" where
  "cellAt b p =
     (if 0 \<le> vx p \<and> vx p < int (length b)
      then (let row = b ! nat (vx p)
            in if 0 \<le> vy p \<and> vy p < int (length row) then Some (row ! nat (vy p)) else None)
      else None)"

text \<open>\<^verbatim>\<open>board[p.x][p.y].field = value\<close>, the new cell given as a function of the old one.\<close>

definition updCell :: "Cell list list \<Rightarrow> Vector2D \<Rightarrow> (Cell \<Rightarrow> Cell) \<Rightarrow> Cell list list option" where
  "updCell b p f =
     (case cellAt b p of
        None \<Rightarrow> None
      | Some c \<Rightarrow> Some (b[nat (vx p) := (b ! nat (vx p))[nat (vy p) := f c]]))"

text \<open>
  \<open>setCellFieldTo\<close> visits \<^verbatim>\<open>board[x][y]\<close> for \<open>x, y < board.length\<close>: the first
  \<open>board.length\<close> cells of every row. A shorter row makes the access raise.
\<close>

definition setCellFieldTo :: "(Cell \<Rightarrow> Cell) \<Rightarrow> Cell list list \<Rightarrow> Cell list list option" where
  "setCellFieldTo f b =
     (if list_all (\<lambda>row. length b \<le> length row) b
      then Some (map (\<lambda>row. map f (take (length b) row) @ drop (length b) row) b)
      else None)"

text \<open>\<open>getBlankBoard\<close>: two nested loops over \<open>0 .. size - 1\<close>.\<close>

definition blankCell :: "int \<Rightarrow> int \<Rightarrow> Cell" where
  "blankCell i j =
     \<lparr>pos = \<lparr>vx = i, vy = j\<rparr>, letter = [], shown = False, found = False,
      selected = False, selectable = True, highlighted = False\<rparr>"

definition getBlankBoard :: "WordsearchConfig \<Rightarrow> Cell list list" where
  "getBlankBoard cfg =
     map (\<lambda>i. map (\<lambda>j. blankCell (int i) (int j)) [0 ..< nat (bsize cfg)])
       [0 ..< nat (bsize cfg)]"

section \<open>Word placement engine\<close>

text \<open>
  \<open>isCharCollision\<close>: with overlap allowed an equal letter is no collision; otherwise
  \<^verbatim>\<open>!!boardChar\<close>, true exactly for a non-empty letter.
\<close>

definition isCharCollision :: "WordsearchConfig \<Rightarrow> Cell list list \<Rightarrow> string \<Rightarrow> Vector2D \<Rightarrow> failure + bool" where
  "isCharCollision cfg b ch p =
     (case cellAt b p of
        None \<Rightarrow> Inl TypeError
      | Some c \<Rightarrow>
          (let boardChar = letter c
           in if allowWordOverlap cfg \<and> boardChar = ch then Inr False
              else Inr (boardChar \<noteq> [])))"

text \<open>
  \<open>doesWordCollide\<close>: the loop over \<open>c = 0 .. word.length - 1\<close>, as a recursion over the
  letters still to check. After every letter, the last one too, the position is moved,
  and a move that leaves the board returns \<open>true\<close>.
\<close>

fun doesWordCollideLoop ::
  "WordsearchConfig \<Rightarrow> Cell list list \<Rightarrow> WSDirections \<Rightarrow> string \<Rightarrow> Vector2D \<Rightarrow> failure + bool" where
  "doesWordCollideLoop cfg b d [] newPos = Inr False"
| "doesWordCollideLoop cfg b d (ch # rest) newPos =
     (case isCharCollision cfg b [ch] newPos of
        Inl e \<Rightarrow> Inl e
      | Inr True \<Rightarrow> Inr True
      | Inr False \<Rightarrow>
          (case moveInDirection cfg newPos d of
             Some np \<Rightarrow> doesWordCollideLoop cfg b d rest np
           | None \<Rightarrow> Inr True))"

definition doesWordCollide ::
  "WordsearchConfig \<Rightarrow> Cell list list \<Rightarrow> string \<Rightarrow> Vector2D \<Rightarrow> WSDirections \<Rightarrow> failure + bool" where
  "doesWordCollide cfg b w sp d = doesWordCollideLoop cfg b d w sp"

text \<open>
  \<open>doesWordFit\<close>: the loop runs \<open>word.length\<close> times; each round needs the position of
  the letter it stands on and then moves. The result of the last move is not looked at.
\<close>

fun doesWordFitLoop :: "WordsearchConfig \<Rightarrow> WSDirections \<Rightarrow> nat \<Rightarrow> Vector2D option \<Rightarrow> bool" where
  "doesWordFitLoop cfg d 0 tempV = True"
| "doesWordFitLoop cfg d (Suc n) tempV =
     (case tempV of
        Some v \<Rightarrow> doesWordFitLoop cfg d n (moveInDirection cfg v d)
      | None \<Rightarrow> False)"

definition doesWordFit :: "WordsearchConfig \<Rightarrow> string \<Rightarrow> Vector2D \<Rightarrow> WSDirections \<Rightarrow> bool" where
  "doesWordFit cfg w sp d =
     (if \<not> isVectorInBoard cfg sp then False
      else doesWordFitLoop cfg d (length w) (Some sp))"

text \<open>
  A \<^verbatim>\<open>forEach\<close> or \<^verbatim>\<open>for\<close> loop whose body can raise: the fold stops at the first
  failure, as the exception leaves the loop.
\<close>

fun foldE :: "('a \<Rightarrow> 'b \<Rightarrow> failure + 'b) \<Rightarrow> 'a list \<Rightarrow> 'b \<Rightarrow> failure + 'b" where
  "foldE f [] s = Inr s"
| "foldE f (a # as) s = (case f a s of Inl e \<Rightarrow> Inl e | Inr s' \<Rightarrow> foldE f as s')"








subsection \<open>Letter case and the random fill\<close>

text \<open>
  \<open>getStrInCase\<close>: \<^verbatim>\<open>toLocaleUpperCase\<close> and \<^verbatim>\<open>toLowerCase\<close>, on the ASCII letters;
  every other character is left as it is.
\<close>

definition toUpperChar :: "char \<Rightarrow> char" where
  "toUpperChar c =
     (let n = (of_char c :: nat) in if 97 \<le> n \<and> n \<le> 122 then char_of (n - 32) else c)"

definition toLowerChar :: "char \<Rightarrow> char" where
  "toLowerChar c =
     (let n = (of_char c :: nat) in if 65 \<le> n \<and> n \<le> 90 then char_of (n + 32) else c)"

definition getStrInCase :: "WordsearchConfig \<Rightarrow> string \<Rightarrow> string" where
  "getStrInCase cfg str =
     (if wcase (wordsConfig cfg) = UPPER then map toUpperChar str else map toLowerChar str)"





section \<open>Dictionary sourcing\<close>

text \<open>\<open>wordCriteria\<close>; \<open>None\<close> is a word that is \<^verbatim>\<open>undefined\<close>, not a string.\<close>

definition wordCriteria :: "WordsConfig \<Rightarrow> string option \<Rightarrow> string list \<Rightarrow> bool" where
  "wordCriteria wc wrd lst =
     (case wrd of
        None \<Rightarrow> False
      | Some w \<Rightarrow>
          length w > 0 \<and> w \<notin> set lst \<and> int (length w) \<ge> minLength wc \<and> int (length w) \<le> maxLength wc)"

definition pushIfCriteria :: "WordsConfig \<Rightarrow> string option \<Rightarrow> string list \<Rightarrow> string list" where
  "pushIfCriteria wc wrd lst =
     (case wrd of
        None \<Rightarrow> lst
      | Some w \<Rightarrow> if wordCriteria wc (Some w) lst then lst @ [w] else lst)"

text \<open>
  \<open>getRandomWord\<close>: \<^verbatim>\<open>dictionary[Math.floor(Math.random() * dictionary.length)]\<close>. The
  natural number \<open>r\<close> is the random source and \<open>r mod length\<close> the index drawn; an empty
  dictionary gives \<^verbatim>\<open>undefined\<close>.
\<close>

definition getRandomWord :: "WordsConfig \<Rightarrow> nat \<Rightarrow> string option" where
  "getRandomWord wc r =
     (if dictionary wc = [] then None
      else Some (dictionary wc ! (r mod length (dictionary wc))))"

text \<open>
  The loop of \<open>getRandomWordsFromDictionary\<close>: \<open>k\<close> counts the draws made, \<open>tries\<close> is
  the variable of the source. It is counted down after every draw, accepted or not, and
  the function throws when it reaches zero.
\<close>

partial_function (option) randomWordsLoop ::
  "WordsConfig \<Rightarrow> (nat \<Rightarrow> nat) \<Rightarrow> nat \<Rightarrow> int \<Rightarrow> string list \<Rightarrow> (failure + string list) option" where
  "randomWordsLoop wc rw k tries ws =
     (if int (length ws) < amount wc
      then (let wrd = getRandomWord wc (rw k);
                ws' = pushIfCriteria wc wrd ws;
                tries' = tries - 1
            in if tries' = 0 then Some (Inl (Error ''Not enough words in dictionary.''))
               else randomWordsLoop wc rw (k + 1) tries' ws')
      else Some (Inr ws))"

declare randomWordsLoop.simps [code]

definition getRandomWordsFromDictionary :: "WordsConfig \<Rightarrow> (nat \<Rightarrow> nat) \<Rightarrow> failure + string list" where
  "getRandomWordsFromDictionary wc rw =
     (case randomWordsLoop wc rw 0 100 [] of None \<Rightarrow> Inl Diverges | Some r \<Rightarrow> r)"




section \<open>Word registry\<close>

text \<open>
  \<open>getWordIndex\<close>: the first index whose word is \<^verbatim>\<open>===\<close> the text, or \<open>-1\<close>.
  The recursion carries the loop variable \<open>w\<close>.
\<close>

fun getWordIndexFrom :: "int \<Rightarrow> Word list \<Rightarrow> string \<Rightarrow> int" where
  "getWordIndexFrom w [] t = -1"
| "getWordIndexFrom w (wd # wds) t = (if word wd = t then w else getWordIndexFrom (w + 1) wds t)"

definition getWordIndex :: "WordsearchOutput \<Rightarrow> string \<Rightarrow> int" where
  "getWordIndex out t = getWordIndexFrom 0 (words out) t"

text \<open>
  \<open>checkEnd\<close>: the loop runs over \<open>w = 0 .. config.size - 1\<close>, skips an index with no
  word, and counts the words that are found or shown; the game has ended when the count
  equals \<open>words.length\<close>.
\<close>

definition checkEndCount :: "WordsearchConfig \<Rightarrow> Word list \<Rightarrow> nat" where
  "checkEndCount cfg ws =
     length (filter (\<lambda>w. w < length ws \<and> (wfound (ws ! w) \<or> wshown (ws ! w)))
               [0 ..< nat (bsize cfg)])"

definition checkEnd :: "WordsearchConfig \<Rightarrow> WordsearchOutput \<Rightarrow> bool \<times> WordsearchOutput" where
  "checkEnd cfg out =
     (let fORd = checkEndCount cfg (words out);
          isEnd = (fORd = length (words out))
      in (isEnd, out\<lparr>endGame := isEnd\<rparr>))"

text \<open>
  \<open>setWordAsFound\<close> and \<open>discoverWord\<close>: when the index holds a word, every cell of
  its positions gets the flag, then the word itself.
\<close>

definition setWordAsFound :: "WordsearchOutput \<Rightarrow> int \<Rightarrow> failure + WordsearchOutput" where
  "setWordAsFound out wordIndex =
     (if 0 \<le> wordIndex \<and> wordIndex < int (length (words out))
      then (let w = words out ! nat wordIndex
            in case foldE (\<lambda>p b. case updCell b p (\<lambda>c. c\<lparr>found := True\<rparr>) of
                                     None \<Rightarrow> Inl TypeError | Some b' \<Rightarrow> Inr b')
                      (wpos w) (board out) of
                 Inl e \<Rightarrow> Inl e
               | Inr b' \<Rightarrow>
                   Inr (out\<lparr>board := b', words := (words out)[nat wordIndex := w\<lparr>wfound := True\<rparr>]\<rparr>))
      else Inr out)"

definition discoverWord :: "WordsearchOutput \<Rightarrow> int \<Rightarrow> failure + WordsearchOutput" where
  "discoverWord out wordIndex =
     (if 0 \<le> wordIndex \<and> wordIndex < int (length (words out))
      then (let w = words out ! nat wordIndex
            in case foldE (\<lambda>p b. case updCell b p (\<lambda>c. c\<lparr>shown := True\<rparr>) of
                                     None \<Rightarrow> Inl TypeError | Some b' \<Rightarrow> Inr b')
                      (wpos w) (board out) of
                 Inl e \<Rightarrow> Inl e
               | Inr b' \<Rightarrow>
                   Inr (out\<lparr>board := b', words := (words out)[nat wordIndex := w\<lparr>wshown := True\<rparr>]\<rparr>))
      else Inr out)"

text \<open>\<open>showWord(word, submit)\<close>: the lookup, then discovery or submission.\<close>

definition showWord :: "WordsearchOutput \<Rightarrow> string \<Rightarrow> bool \<Rightarrow> failure + (bool \<times> WordsearchOutput)" where
  "showWord out t submit =
     (let index = getWordIndex out t
      in if index \<ge> 0 \<and> \<not> submit
         then (case discoverWord out index of Inl e \<Rightarrow> Inl e | Inr out' \<Rightarrow> Inr (index \<ge> 0, out'))
         else if index \<ge> 0 \<and> submit
         then (case setWordAsFound out index of Inl e \<Rightarrow> Inl e | Inr out' \<Rightarrow> Inr (index \<ge> 0, out'))
         else Inr (index \<ge> 0, out))"

section \<open>Selection state machine\<close>

text \<open>
  The loops that walk a ray, \<^verbatim>\<open>while (v) { ...; v = this.moveInDirection(v, d) }\<close>, end
  when a move leaves the board. With the direction \<open>NONE\<close> a move returns the position
  it was given, so they are partial functions: \<open>None\<close> is the loop that never ends.
\<close>

partial_function (option) markSelectableLoop ::
  "WordsearchConfig \<Rightarrow> WSDirections \<Rightarrow> Vector2D option \<Rightarrow> Cell list list \<Rightarrow> (failure + Cell list list) option" where
  "markSelectableLoop cfg d newVector b =
     (case newVector of
        None \<Rightarrow> Some (Inr b)
      | Some v \<Rightarrow>
          (case updCell b v (\<lambda>c. c\<lparr>selectable := True\<rparr>) of
             None \<Rightarrow> Some (Inl TypeError)
           | Some b' \<Rightarrow> markSelectableLoop cfg d (moveInDirection cfg v d) b'))"

declare markSelectableLoop.simps [code]

definition markSelectable ::
  "WordsearchConfig \<Rightarrow> Vector2D \<Rightarrow> WSDirections \<Rightarrow> Cell list list \<Rightarrow> failure + Cell list list" where
  "markSelectable cfg from d b =
     (case markSelectableLoop cfg d (moveInDirection cfg from d) b of
        None \<Rightarrow> Inl Diverges
      | Some r \<Rightarrow> r)"

text \<open>
  \<open>getAdjacentSelectedVectorDirection\<close>: its own list of the eight directions, in its
  own order; the first whose neighbouring cell is on the board and selected.
\<close>

definition adjacentDirections :: "WSDirections list" where
  "adjacentDirections = [DOWN, DOWN_LEFT, DOWN_RIGHT, LEFT, RIGHT, UP, UP_LEFT, UP_RIGHT]"

fun adjacentSelectedLoop ::
  "WordsearchConfig \<Rightarrow> Cell list list \<Rightarrow> Vector2D \<Rightarrow> WSDirections list \<Rightarrow> failure + WSDirections option" where
  "adjacentSelectedLoop cfg b v [] = Inr None"
| "adjacentSelectedLoop cfg b v (d # ds) =
     (case moveInDirection cfg v d of
        None \<Rightarrow> adjacentSelectedLoop cfg b v ds
      | Some newVector \<Rightarrow>
          (case cellAt b newVector of
             None \<Rightarrow> Inl TypeError
           | Some c \<Rightarrow> if selected c then Inr (Some d) else adjacentSelectedLoop cfg b v ds))"

definition getAdjacentSelectedVectorDirection ::
  "WordsearchConfig \<Rightarrow> Cell list list \<Rightarrow> Vector2D \<Rightarrow> failure + WSDirections option" where
  "getAdjacentSelectedVectorDirection cfg b v = adjacentSelectedLoop cfg b v adjacentDirections"

text \<open>
  \<open>calculateSelectables(lastSelection?)\<close>: three \<^verbatim>\<open>if\<close> statements in a row, on
  \<open>selectedCount\<close> being 0, being 1 (with a last selection), and being above 1.
\<close>

definition calculateSelectables ::
  "WordsearchConfig \<Rightarrow> nat \<Rightarrow> Vector2D option \<Rightarrow> Cell list list \<Rightarrow> failure + Cell list list" where
  "calculateSelectables cfg cnt lastSelection b =
     (case (if cnt = 0 then setCellFieldTo (\<lambda>c. c\<lparr>selectable := True\<rparr>) b else Some b) of
        None \<Rightarrow> Inl TypeError
      | Some b1 \<Rightarrow>
     (case (case lastSelection of
              Some ls \<Rightarrow>
                (if cnt = 1
                 then (case setCellFieldTo (\<lambda>c. c\<lparr>selectable := False\<rparr>) b1 of
                         None \<Rightarrow> Inl TypeError
                       | Some b' \<Rightarrow> foldE (\<lambda>wsDirection. markSelectable cfg ls wsDirection)
                                     (allowedDirections cfg) b')
                 else Inr b1)
            | None \<Rightarrow> Inr b1) of
        Inl e \<Rightarrow> Inl e
      | Inr b2 \<Rightarrow>
     (if cnt > 1
      then (case setCellFieldTo (\<lambda>c. c\<lparr>selectable := False\<rparr>) b2 of
              None \<Rightarrow> Inl TypeError
            | Some b' \<Rightarrow>
                (case lastSelection of
                   None \<Rightarrow> Inr b'
                 | Some ls \<Rightarrow>
                     (case getAdjacentSelectedVectorDirection cfg b' ls of
                        Inl e \<Rightarrow> Inl e
                      | Inr None \<Rightarrow> Inr b'
                      | Inr (Some selDirection) \<Rightarrow>
                          (case getInverseDirection selDirection of
                             None \<Rightarrow> Inr b'
                           | Some inversedDirection \<Rightarrow> markSelectable cfg ls inversedDirection b'))))
      else Inr b2)))"

text \<open>
  \<open>getDirectionFrom2Vectors\<close>: \<open>allDirections\<close> in the order of the class field. The
  inner loop runs while the walk is on the board and no direction has been found yet.
\<close>

definition allDirections :: "WSDirections list" where
  "allDirections = [DOWN, DOWN_LEFT, DOWN_RIGHT, UP, UP_LEFT, UP_RIGHT, LEFT, RIGHT]"

partial_function (option) directionSearchLoop ::
  "WordsearchConfig \<Rightarrow> WSDirections \<Rightarrow> Vector2D \<Rightarrow> Vector2D option \<Rightarrow> WSDirections option
     \<Rightarrow> WSDirections option option" where
  "directionSearchLoop cfg d vector2 leVector foundDirection =
     (case leVector of
        None \<Rightarrow> Some foundDirection
      | Some v \<Rightarrow>
          (if foundDirection \<noteq> None then Some foundDirection
           else directionSearchLoop cfg d vector2 (moveInDirection cfg v d)
                  (if v = vector2 then Some d else foundDirection)))"

declare directionSearchLoop.simps [code]

fun directionForEach ::
  "WordsearchConfig \<Rightarrow> Vector2D \<Rightarrow> Vector2D \<Rightarrow> WSDirections list \<Rightarrow> WSDirections option
     \<Rightarrow> WSDirections option option" where
  "directionForEach cfg vector1 vector2 [] foundDirection = Some foundDirection"
| "directionForEach cfg vector1 vector2 (d # ds) foundDirection =
     (case directionSearchLoop cfg d vector2 (moveInDirection cfg vector1 d) foundDirection of
        None \<Rightarrow> None
      | Some fd \<Rightarrow> directionForEach cfg vector1 vector2 ds fd)"

definition getDirectionFrom2Vectors ::
  "WordsearchConfig \<Rightarrow> Vector2D \<Rightarrow> Vector2D \<Rightarrow> failure + WSDirections option" where
  "getDirectionFrom2Vectors cfg vector1 vector2 =
     (case directionForEach cfg vector1 vector2 allDirections None of
        None \<Rightarrow> Inl Diverges
      | Some fd \<Rightarrow> Inr fd)"

text \<open>
  The walk of \<open>selectCell\<close> from the last selected cell towards \<open>pos\<close>: every cell it
  passes is selected, its letter appended and the count incremented, until \<open>pos\<close> has
  been passed or the board is left.
\<close>

partial_function (option) selectWalkLoop ::
  "WordsearchConfig \<Rightarrow> WSDirections \<Rightarrow> Vector2D \<Rightarrow> Vector2D option \<Rightarrow> bool
     \<Rightarrow> Cell list list \<times> string \<times> nat \<Rightarrow> (failure + (Cell list list \<times> string \<times> nat)) option" where
  "selectWalkLoop cfg d p leVector fnd st =
     (case leVector of
        None \<Rightarrow> Some (Inr st)
      | Some v \<Rightarrow>
          (if fnd then Some (Inr st)
           else (case updCell (fst st) v (\<lambda>c. c\<lparr>selected := True\<rparr>) of
                   None \<Rightarrow> Some (Inl TypeError)
                 | Some b' \<Rightarrow>
                     (case cellAt b' v of
                        None \<Rightarrow> Some (Inl TypeError)
                      | Some c \<Rightarrow>
                          selectWalkLoop cfg d p (moveInDirection cfg v d) (v = p)
                            (b', fst (snd st) @ letter c, snd (snd st) + 1)))))"

declare selectWalkLoop.simps [code]

definition selectWalk ::
  "WordsearchConfig \<Rightarrow> WSDirections \<Rightarrow> Vector2D \<Rightarrow> Vector2D \<Rightarrow> Cell list list \<times> string \<times> nat
     \<Rightarrow> failure + (Cell list list \<times> string \<times> nat)" where
  "selectWalk cfg d from p st =
     (case selectWalkLoop cfg d p (moveInDirection cfg from d) False st of
        None \<Rightarrow> Inl Diverges
      | Some r \<Rightarrow> r)"



definition resetCurrentSelection :: "Wordsearch \<Rightarrow> (failure + unit) \<times> Wordsearch" where
  "resetCurrentSelection s =
     (let s1 = s\<lparr>selectedCount := 0, selectedDirection := NONE\<rparr>
      in case wsOutput s1 of
           None \<Rightarrow> (Inl TypeError, s1)
         | Some out \<Rightarrow>
             (let out1 = out\<lparr>currentWord := []\<rparr>;
                  s2 = s1\<lparr>wsOutput := Some out1, lastSelectedVector := None\<rparr>
              in case setCellFieldTo (\<lambda>c. c\<lparr>selected := False\<rparr>) (board out1) of
                   None \<Rightarrow> (Inl TypeError, s2)
                 | Some b1 \<Rightarrow>
                     (case setCellFieldTo (\<lambda>c. c\<lparr>highlighted := False\<rparr>) b1 of
                        None \<Rightarrow> (Inl TypeError, s2)
                      | Some b2 \<Rightarrow>
                          (case calculateSelectables (config s2) (selectedCount s2) None b2 of
                             Inl e \<Rightarrow> (Inl e, s2)
                           | Inr b3 \<Rightarrow> (Inr (), s2\<lparr>wsOutput := Some (out1\<lparr>board := b3\<rparr>)\<rparr>)))))"

definition selectCell :: "Wordsearch \<Rightarrow> Vector2D \<Rightarrow> (failure + bool) \<times> Wordsearch" where
  "selectCell s p =
     (case wsOutput s of
        None \<Rightarrow> (Inl TypeError, s)
      | Some out \<Rightarrow>
     (case cellAt (board out) p of
        None \<Rightarrow> (Inl TypeError, s)
      | Some c0 \<Rightarrow>
     (if selectable c0
      then (case lastSelectedVector s of
              None \<Rightarrow>
                (case updCell (board out) p (\<lambda>c. c\<lparr>selected := True\<rparr>) of
                   None \<Rightarrow> (Inl TypeError, s)
                 | Some b1 \<Rightarrow>
                     (case cellAt b1 p of
                        None \<Rightarrow> (Inl TypeError, s)
                      | Some c1 \<Rightarrow>
                          (let out1 = out\<lparr>board := b1, currentWord := currentWord out @ letter c1\<rparr>;
                               s1 = s\<lparr>wsOutput := Some out1, selectedCount := selectedCount s + 1,
                                      lastSelectedVector := Some p\<rparr>
                           in case calculateSelectables (config s1) (selectedCount s1) (Some p) b1 of
                                Inl e \<Rightarrow> (Inl e, s1)
                              | Inr b2 \<Rightarrow> (Inr True, s1\<lparr>wsOutput := Some (out1\<lparr>board := b2\<rparr>)\<rparr>))))
            | Some lsv \<Rightarrow>
                (case getDirectionFrom2Vectors (config s) lsv p of
                   Inl e \<Rightarrow> (Inl e, s)
                 | Inr None \<Rightarrow> (Inr False, s)
                 | Inr (Some d) \<Rightarrow>
                     (case selectWalk (config s) d lsv p (board out, currentWord out, selectedCount s) of
                        Inl e \<Rightarrow> (Inl e, s)
                      | Inr (b1, cw, n) \<Rightarrow>
                          (let out1 = out\<lparr>board := b1, currentWord := cw\<rparr>;
                               s1 = s\<lparr>wsOutput := Some out1, selectedCount := n,
                                      lastSelectedVector := Some p\<rparr>
                           in case calculateSelectables (config s1) (selectedCount s1) (Some p) b1 of
                                Inl e \<Rightarrow> (Inl e, s1)
                              | Inr b2 \<Rightarrow> (Inr True, s1\<lparr>wsOutput := Some (out1\<lparr>board := b2\<rparr>)\<rparr>)))))
      else (Inr False, s))))"

definition submitCurrentWord :: "Wordsearch \<Rightarrow> (failure + bool) \<times> Wordsearch" where
  "submitCurrentWord s =
     (case wsOutput s of
        None \<Rightarrow> (Inl TypeError, s)
      | Some out \<Rightarrow>
          (case showWord out (currentWord out) True of
             Inl e \<Rightarrow> (Inl e, s)
           | Inr (win, out1) \<Rightarrow>
               (case resetCurrentSelection (s\<lparr>wsOutput := Some out1\<rparr>) of
                  (Inl e, s2) \<Rightarrow> (Inl e, s2)
                | (Inr u, s2) \<Rightarrow>
                    (case wsOutput s2 of
                       None \<Rightarrow> (Inl TypeError, s2)
                     | Some out2 \<Rightarrow>
                         (Inr win, s2\<lparr>wsOutput := Some (snd (checkEnd (config s2) out2))\<rparr>)))))"

section \<open>Generation\<close>













section \<open>Example inputs\<close>

definition exampleWordsConfig :: WordsConfig where
  "exampleWordsConfig =
     \<lparr>amount = 1, minLength = 2, maxLength = 6, dictionary = [''ABCDEF'', ''AB''],
      wcase = UPPER, randomWords = True\<rparr>"

definition exampleConfig :: WordsearchConfig where
  "exampleConfig =
     \<lparr>bsize = 6, wordsConfig = exampleWordsConfig, allowedDirections = [RIGHT],
      allowWordOverlap = True\<rparr>"

definition catOutput :: WordsearchOutput where
  "catOutput =
     \<lparr>board = getBlankBoard exampleConfig,
      words = [\<lparr>word = ''DOG'', wpos = [], wfound = False, wshown = False\<rparr>,
               \<lparr>word = ''CAT'', wpos = [], wfound = False, wshown = False\<rparr>],
      currentWord = [], endGame = False, error = []\<rparr>"

definition foundWord :: "string \<Rightarrow> Word" where
  "foundWord w = \<lparr>word = w, wpos = [], wfound = True, wshown = False\<rparr>"

definition sevenFoundOutput :: WordsearchOutput where
  "sevenFoundOutput =
     \<lparr>board = getBlankBoard exampleConfig,
      words = map foundWord [''AB'', ''CD'', ''EF'', ''GH'', ''IJ'', ''KL'', ''MN''],
      currentWord = [], endGame = False, error = []\<rparr>"

section \<open>Rays on the board\<close>

text \<open>
  \<open>stepN p d k\<close> is the position \<open>k\<close> steps from \<open>p\<close> in direction \<open>d\<close>, on the
  board or not. \<open>rayList cfg d p\<close> lists the cells that repeated moves from \<open>p\<close> in
  a real direction \<open>d\<close> visit before the board is left; \<open>p\<close> itself is not among them.
  The loops of the source are compared with it.
\<close>

definition stepN :: "Vector2D \<Rightarrow> WSDirections \<Rightarrow> nat \<Rightarrow> Vector2D" where
  "stepN p d k = \<lparr>vx = vx p + int k * vx (getDirectionVector d), vy = vy p + int k * vy (getDirectionVector d)\<rparr>"

definition rayPotential :: "WordsearchConfig \<Rightarrow> WSDirections \<Rightarrow> Vector2D \<Rightarrow> nat" where
  "rayPotential cfg d p =
     nat (2 * bsize cfg - (vx (getDirectionVector d) * vx p + vy (getDirectionVector d) * vy p))"

lemma moveInDirection_potential:
  "d \<noteq> NONE \<Longrightarrow> moveInDirection cfg p d = Some q \<Longrightarrow> rayPotential cfg d q < rayPotential cfg d p"
  by (cases d) (auto simp: moveInDirection_def isVectorInBoard_def rayPotential_def Let_def split: if_splits)

function rayList :: "WordsearchConfig \<Rightarrow> WSDirections \<Rightarrow> Vector2D \<Rightarrow> Vector2D list" where
  "rayList cfg d p =
     (if d = NONE then []
      else (case moveInDirection cfg p d of None \<Rightarrow> [] | Some q \<Rightarrow> q # rayList cfg d q))"
  by pat_completeness auto
termination
  by (relation "measure (\<lambda>(cfg, d, p). rayPotential cfg d p)") (auto simp: moveInDirection_potential)

declare rayList.simps [simp del]

text \<open>A board as \<open>getBlankBoard\<close> builds it: \<open>size\<close> rows of \<open>size\<close> cells.\<close>

definition wfBoard :: "WordsearchConfig \<Rightarrow> Cell list list \<Rightarrow> bool" where
  "wfBoard cfg b = (length b = nat (bsize cfg) \<and> list_all (\<lambda>row. length row = nat (bsize cfg)) b)"

text \<open>A game on the blank board of the example configuration, and the same game after the
  cell in the top left corner has been selected.\<close>

definition playStart :: Wordsearch where
  "playStart =
     \<lparr>config = exampleConfig,
      wsOutput = Some \<lparr>board = getBlankBoard exampleConfig, words = [], currentWord = [],
                        endGame = False, error = []\<rparr>,
      selectedCount = 0, selectedDirection = NONE, generationTimes = 0,
      lastSelectedVector = None, console = []\<rparr>"

definition playOne :: Wordsearch where
  "playOne = snd (selectCell playStart \<lparr>vx = 0, vy = 0\<rparr>)"

text \<open>
  \<open>drawsAccepted wc rw k n ws\<close>: the list of chosen words after \<open>n\<close> more draws, starting
  with the \<open>k\<close>-th draw and the list \<open>ws\<close>, when nothing stops the drawing.
\<close>

primrec drawsAccepted :: "WordsConfig \<Rightarrow> (nat \<Rightarrow> nat) \<Rightarrow> nat \<Rightarrow> nat \<Rightarrow> string list \<Rightarrow> string list" where
  "drawsAccepted wc rw k 0 ws = ws"
| "drawsAccepted wc rw k (Suc n) ws =
     drawsAccepted wc rw (k + 1) n (pushIfCriteria wc (getRandomWord wc (rw k)) ws)"

text \<open>Three words wanted from a dictionary of three; the draws give the first word, the
  second word, and from then on the first word again.\<close>

definition threeWordsConfig :: WordsConfig where
  "threeWordsConfig =
     \<lparr>amount = 3, minLength = 2, maxLength = 6, dictionary = [''AB'', ''CD'', ''EF''],
      wcase = UPPER, randomWords = True\<rparr>"

definition repeatingDraws :: "nat \<Rightarrow> nat" where
  "repeatingDraws k = (if k = 1 then 1 else 0)"

definition cyclingDraws :: "nat \<Rightarrow> nat" where
  "cyclingDraws k = k"

text \<open>What the source asks of the words it has chosen.\<close>

definition chosenOK :: "WordsConfig \<Rightarrow> string list \<Rightarrow> bool" where
  "chosenOK wc ws =
     (distinct ws \<and>
      list_all (\<lambda>w. w \<in> set (dictionary wc) \<and> w \<noteq> [] \<and>
                     minLength wc \<le> int (length w) \<and> int (length w) \<le> maxLength wc) ws)"




section \<open>What a placed word looks like\<close>

text \<open>
  \<open>letterAt b p\<close> reads the letter of the cell at \<open>p\<close>. A list of positions is a straight
  run when, for one of the eight directions, its \<open>i\<close>-th entry lies \<open>i\<close> steps from its
  first. A placed word is in order on a board when it has one position per letter, the
  positions are a straight run, and the cell at the \<open>i\<close>-th position holds the \<open>i\<close>-th
  letter.
\<close>

definition letterAt :: "Cell list list \<Rightarrow> Vector2D \<Rightarrow> string" where
  "letterAt b p = (case cellAt b p of None \<Rightarrow> [] | Some c \<Rightarrow> letter c)"









section \<open>The rule for the selectable cells\<close>

text \<open>
  \<open>establishedDirection cfg b p\<close>: the eight directions are scanned in the order of
  \<open>getAdjacentSelectedVectorDirection\<close> for a neighbour of \<open>p\<close> that is on the board and
  selected; the result is the inverse of the first direction found.
  \<open>shouldBeSelectable\<close> is the rule by selection count: with no cell selected, every
  cell; with one cell selected, the cells on the rays from it in the allowed directions;
  with more, the cells on the ray from the last selected cell in the established
  direction. \<open>selectablesOK\<close> says that the flags of the board follow the rule.
\<close>

definition selectedAt :: "Cell list list \<Rightarrow> Vector2D \<Rightarrow> bool" where
  "selectedAt b p = (case cellAt b p of None \<Rightarrow> False | Some c \<Rightarrow> selected c)"

definition establishedDirection :: "WordsearchConfig \<Rightarrow> Cell list list \<Rightarrow> Vector2D \<Rightarrow> WSDirections option" where
  "establishedDirection cfg b p =
     (case List.find (\<lambda>e. case moveInDirection cfg p e of
                              None \<Rightarrow> False
                            | Some n \<Rightarrow> selectedAt b n) adjacentDirections of
        None \<Rightarrow> None
      | Some e \<Rightarrow> getInverseDirection e)"

definition shouldBeSelectable ::
  "WordsearchConfig \<Rightarrow> Cell list list \<Rightarrow> nat \<Rightarrow> Vector2D option \<Rightarrow> Vector2D \<Rightarrow> bool" where
  "shouldBeSelectable cfg b cnt lastSel q =
     (if cnt = 0 then True
      else (case lastSel of
              None \<Rightarrow> False
            | Some p \<Rightarrow>
                if cnt = 1 then list_ex (\<lambda>d. q \<in> set (rayList cfg d p)) (allowedDirections cfg)
                else (case establishedDirection cfg b p of
                        None \<Rightarrow> False
                      | Some d \<Rightarrow> q \<in> set (rayList cfg d p))))"

definition selectablesOK :: "Wordsearch \<Rightarrow> bool" where
  "selectablesOK s =
     (case wsOutput s of
        None \<Rightarrow> False
      | Some out \<Rightarrow>
          (\<forall>q c. cellAt (board out) q = Some c \<longrightarrow>
                 selectable c = shouldBeSelectable (config s) (board out) (selectedCount s)
                                  (lastSelectedVector s) q))"

text \<open>
  \<open>walkCells cfg d v p\<close>: the cells of the ray from \<open>v\<close> in direction \<open>d\<close> up to and
  including \<open>p\<close> (the whole ray when \<open>p\<close> is not on it), in the order of the walk.
\<close>

fun upToIncl :: "'a \<Rightarrow> 'a list \<Rightarrow> 'a list" where
  "upToIncl p [] = []"
| "upToIncl p (x # xs) = (if x = p then [x] else x # upToIncl p xs)"

definition walkCells :: "WordsearchConfig \<Rightarrow> WSDirections \<Rightarrow> Vector2D \<Rightarrow> Vector2D \<Rightarrow> Vector2D list" where
  "walkCells cfg d v p = upToIncl p (rayList cfg d v)"

definition playTwo :: Wordsearch where
  "playTwo = snd (selectCell playOne \<lparr>vx = 0, vy = 1\<rparr>)"

(*DEFS-END*)

section \<open>Collision check at the board edge\<close>

text \<open>
  Claim C1. A word that fits and meets no letter must not be reported as colliding,
  also when its last letter lies on the edge of the board. On the blank board of size 6
  the word AB fits at row 0, columns 4 and 5, both cells are empty, and
  \<open>doesWordCollide\<close> still answers \<open>true\<close>: after the last letter it moves once more,
  leaves the board and takes that for a collision.
\<close>

theorem doesWordCollide_edge:
  "doesWordFit exampleConfig ''AB'' \<lparr>vx = 0, vy = 4\<rparr> RIGHT \<and>
   map_option letter (cellAt (getBlankBoard exampleConfig) \<lparr>vx = 0, vy = 4\<rparr>) = Some [] \<and>
   map_option letter (cellAt (getBlankBoard exampleConfig) \<lparr>vx = 0, vy = 5\<rparr>) = Some [] \<and>
   doesWordCollide exampleConfig (getBlankBoard exampleConfig) ''AB'' \<lparr>vx = 0, vy = 4\<rparr> RIGHT = Inr True"
  by code_simp

section \<open>End of game\<close>

text \<open>
  Claim C5. The end-game flag must be true exactly when every placed word is found or
  shown. \<open>checkEnd\<close> counts only the indices below the board size: with a board of
  size 6 and seven placed words, all of them found, the flag stays false.
\<close>

theorem checkEnd_seven_words:
  "bsize exampleConfig = 6 \<and> length (words sevenFoundOutput) = 7 \<and>
   list_all wfound (words sevenFoundOutput) \<and>
   fst (checkEnd exampleConfig sevenFoundOutput) = False \<and>
   endGame (snd (checkEnd exampleConfig sevenFoundOutput)) = False"
  by code_simp

section \<open>Lookup in the word registry\<close>

lemma getWordIndexFrom_none:
  "0 \<le> w \<Longrightarrow> (getWordIndexFrom w ws t = - 1) = (t \<notin> word ` set ws)"
proof (induction ws arbitrary: w)
  case Nil
  then show ?case by simp
next
  case (Cons a ws)
  show ?case using Cons.IH[of "w + 1"] Cons.prems by auto
qed

lemma getWordIndexFrom_first:
  "0 \<le> w \<Longrightarrow> t \<in> word ` set ws \<Longrightarrow>
   w \<le> getWordIndexFrom w ws t \<and> nat (getWordIndexFrom w ws t - w) < length ws \<and>
   word (ws ! nat (getWordIndexFrom w ws t - w)) = t \<and>
   (\<forall>j < nat (getWordIndexFrom w ws t - w). word (ws ! j) \<noteq> t)"
proof (induction ws arbitrary: w)
  case Nil
  then show ?case by simp
next
  case (Cons a ws)
  show ?case
  proof (cases "word a = t")
    case True
    then show ?thesis by simp
  next
    case False
    with Cons.prems have m: "t \<in> word ` set ws" by auto
    have w1: "0 \<le> w + 1" using Cons.prems by simp
    note ih = Cons.IH[OF w1 m]
    let ?r = "getWordIndexFrom (w + 1) ws t"
    have e: "nat (?r - w) = Suc (nat (?r - (w + 1)))" using ih by linarith
    show ?thesis using False ih e by (auto simp: nth_Cons')
  qed
qed

text \<open>
  Claim C6, as the code has it: the lookup compares the text with the placed words as
  they are stored, letter case included. It returns \<open>-1\<close> exactly when no placed word
  equals the text, and otherwise the first index whose word equals the text.
\<close>

theorem getWordIndex_exact:
  "(getWordIndex out t = - 1 \<longleftrightarrow> t \<notin> word ` set (words out)) \<and>
   (t \<in> word ` set (words out) \<longrightarrow>
      0 \<le> getWordIndex out t \<and> nat (getWordIndex out t) < length (words out) \<and>
      word (words out ! nat (getWordIndex out t)) = t \<and>
      (\<forall>j < nat (getWordIndex out t). word (words out ! j) \<noteq> t))"
  unfolding getWordIndex_def
  using getWordIndexFrom_none[of 0 "words out" t] getWordIndexFrom_first[of 0 t "words out"]
  by auto

theorem getWordIndex_exact_witness:
  "getWordIndex catOutput ''CAT'' = 1 \<and> ''CAT'' \<in> word ` set (words catOutput) \<and>
   word (words catOutput ! 1) = ''CAT''"
  using getWordIndex_exact[of catOutput "''CAT''"]
  by (simp add: catOutput_def getWordIndex_def)

text \<open>
  The claim as it was stated fails: the query cat differs from the placed word CAT
  only in letter case, and it is not found.
\<close>

theorem getWordIndex_case_counterexample:
  "getStrInCase exampleConfig ''cat'' = ''CAT'' \<and> word (words catOutput ! 1) = ''CAT'' \<and>
   getWordIndex catOutput ''cat'' = - 1"
  by code_simp

section \<open>Geometry of rays\<close>

lemma moveInDirection_Some:
  "moveInDirection cfg p d = Some q \<longleftrightarrow> q = stepN p d 1 \<and> isVectorInBoard cfg q"
  by (auto simp: moveInDirection_def stepN_def Let_def)

lemma stepN_0 [simp]: "stepN p d 0 = p"
  by (simp add: stepN_def)

lemma stepN_stepN: "stepN (stepN p d j) d k = stepN p d (j + k)"
  by (simp add: stepN_def algebra_simps)

lemma stepN_inj: "d \<noteq> NONE \<Longrightarrow> stepN p d j = stepN p d k \<Longrightarrow> j = k"
  by (cases d) (auto simp: stepN_def)

lemma stepN_unique:
  "d \<noteq> NONE \<Longrightarrow> d' \<noteq> NONE \<Longrightarrow> 0 < j \<Longrightarrow> 0 < k \<Longrightarrow> stepN p d j = stepN p d' k \<Longrightarrow> d = d' \<and> j = k"
  by (cases d; cases d') (auto simp: stepN_def)

lemma rayList_nth:
  "i < length (rayList cfg d p) \<Longrightarrow> rayList cfg d p ! i = stepN p d (Suc i)"
proof (induction cfg d p arbitrary: i rule: rayList.induct)
  case (1 cfg d p)
  show ?case
  proof (cases "d = NONE")
    case True
    with "1.prems" show ?thesis by (simp add: rayList.simps)
  next
    case False
    show ?thesis
    proof (cases "moveInDirection cfg p d")
      case None
      with "1.prems" False show ?thesis by (simp add: rayList.simps)
    next
      case (Some q)
      then have q: "q = stepN p d 1" by (simp add: moveInDirection_Some)
      have r: "rayList cfg d p = q # rayList cfg d q"
        using False Some by (simp add: rayList.simps)
      show ?thesis
      proof (cases i)
        case 0
        then show ?thesis using r q by simp
      next
        case (Suc i')
        with "1.prems" r have "i' < length (rayList cfg d q)" by simp
        from "1.IH"[OF False Some this] show ?thesis
          using r Suc q by (simp add: stepN_stepN)
      qed
    qed
  qed
qed

lemma rayList_NONE [simp]: "rayList cfg NONE p = []"
  by (simp add: rayList.simps)

lemma rayList_unfold:
  "d \<noteq> NONE \<Longrightarrow> rayList cfg d p = (case moveInDirection cfg p d of None \<Rightarrow> [] | Some q \<Rightarrow> q # rayList cfg d q)"
  by (subst rayList.simps) simp

lemma rayList_inBoard:
  "q \<in> set (rayList cfg d p) \<Longrightarrow> isVectorInBoard cfg q"
proof (induction cfg d p rule: rayList.induct)
  case (1 cfg d p)
  show ?case
  proof (cases "d = NONE")
    case True
    with "1.prems" show ?thesis by simp
  next
    case False
    show ?thesis
    proof (cases "moveInDirection cfg p d")
      case None
      with "1.prems" False show ?thesis by (simp add: rayList_unfold[of d cfg p])
    next
      case (Some r)
      with "1.prems" False have "q = r \<or> q \<in> set (rayList cfg d r)"
        by (simp add: rayList_unfold[of d cfg p])
      then show ?thesis
        using "1.IH"[OF False Some] Some by (auto simp: moveInDirection_Some)
    qed
  qed
qed

lemma rayList_eq_map: "rayList cfg d p = map (\<lambda>i. stepN p d (Suc i)) [0 ..< length (rayList cfg d p)]"
  by (rule nth_equalityI) (auto simp: rayList_nth)

lemma rayList_distinct: "distinct (rayList cfg d p)"
proof (cases "d = NONE")
  case True then show ?thesis by (simp add: rayList.simps)
next
  case False
  show ?thesis
    apply (subst rayList_eq_map)
    apply (simp add: distinct_map inj_on_def)
    using stepN_inj[OF False] by auto
qed

lemma rayList_not_self: "p \<notin> set (rayList cfg d p)"
proof
  assume "p \<in> set (rayList cfg d p)"
  then obtain i where i: "i < length (rayList cfg d p)" "rayList cfg d p ! i = p"
    by (auto simp: in_set_conv_nth)
  then have d: "d \<noteq> NONE" by (auto simp: rayList.simps)
  from i have "stepN p d (Suc i) = stepN p d 0" by (simp add: rayList_nth)
  from stepN_inj[OF d this] show False by simp
qed

section \<open>Reading and writing cells\<close>

lemma cellAt_Some_iff:
  "wfBoard cfg b \<Longrightarrow> (\<exists>c. cellAt b p = Some c) = isVectorInBoard cfg p"
  by (auto simp: wfBoard_def cellAt_def isVectorInBoard_def Let_def list_all_length split: if_splits)

lemma cellAt_inBoard:
  "wfBoard cfg b \<Longrightarrow> isVectorInBoard cfg p \<Longrightarrow> \<exists>c. cellAt b p = Some c"
  using cellAt_Some_iff by blast

lemma cellAt_Some_inBoard:
  "wfBoard cfg b \<Longrightarrow> cellAt b p = Some c \<Longrightarrow> isVectorInBoard cfg p"
  using cellAt_Some_iff by blast

lemma updCell_wfBoard:
  assumes "wfBoard cfg b" and "updCell b p f = Some b'"
  shows "wfBoard cfg b'"
proof -
  from assms(2) obtain c where c: "cellAt b p = Some c"
    and b': "b' = b[nat (vx p) := (b ! nat (vx p))[nat (vy p) := f c]]"
    by (auto simp: updCell_def split: option.splits)
  from c have px: "nat (vx p) < length b"
    by (auto simp: cellAt_def Let_def split: if_splits)
  have "length (b' ! n) = nat (bsize cfg)" if "n < length b" for n
    using that assms(1) px b' by (cases "n = nat (vx p)") (auto simp: wfBoard_def list_all_length)
  then show ?thesis using assms(1) b' by (auto simp: wfBoard_def list_all_length)
qed

lemma updCell_cellAt:
  assumes "updCell b p f = Some b'"
  shows "cellAt b' q = (if q = p then map_option f (cellAt b q) else cellAt b q)"
proof -
  from assms obtain c where c: "cellAt b p = Some c"
    and b': "b' = b[nat (vx p) := (b ! nat (vx p))[nat (vy p) := f c]]"
    by (auto simp: updCell_def split: option.splits)
  from c have px: "0 \<le> vx p" "vx p < int (length b)"
    and py: "0 \<le> vy p" "vy p < int (length (b ! nat (vx p)))"
    and cv: "c = b ! nat (vx p) ! nat (vy p)"
    by (auto simp: cellAt_def Let_def split: if_splits)
  show ?thesis
  proof (cases "q = p")
    case True
    then show ?thesis using c px py cv b' by (simp add: cellAt_def Let_def)
  next
    case False
    then have ne: "vx q \<noteq> vx p \<or> vy q \<noteq> vy p" by (cases p; cases q) auto
    show ?thesis
    proof (cases "0 \<le> vx q \<and> vx q < int (length b)")
      case oob: False
      then show ?thesis using False b' by (auto simp: cellAt_def)
    next
      case inb: True
      show ?thesis
      proof (cases "vx q = vx p")
        case True
        with ne have "vy q \<noteq> vy p" by simp
        then have "0 \<le> vy q \<Longrightarrow> nat (vy q) \<noteq> nat (vy p)" using py by auto
        then show ?thesis using False True inb px b'
          by (auto simp: cellAt_def Let_def)
      next
        case nx: False
        then have "nat (vx q) \<noteq> nat (vx p)" using inb px by auto
        then show ?thesis using False inb b' by (auto simp: cellAt_def Let_def)
      qed
    qed
  qed
qed

lemma updCell_Some:
  "wfBoard cfg b \<Longrightarrow> isVectorInBoard cfg p \<Longrightarrow> \<exists>b'. updCell b p f = Some b'"
  using cellAt_inBoard[of cfg b p] by (auto simp: updCell_def)

lemma setCellFieldTo_wf:
  assumes "wfBoard cfg b"
  shows "setCellFieldTo f b = Some (map (map f) b)"
proof -
  have "list_all (\<lambda>row. length b \<le> length row) b"
    using assms by (auto simp: wfBoard_def list_all_iff)
  moreover have "map (\<lambda>row. map f (take (length b) row) @ drop (length b) row) b = map (map f) b"
    using assms by (auto simp: wfBoard_def list_all_iff)
  ultimately show ?thesis by (simp add: setCellFieldTo_def)
qed

lemma wfBoard_map: "wfBoard cfg b \<Longrightarrow> wfBoard cfg (map (map f) b)"
  by (auto simp: wfBoard_def list_all_iff)

lemma cellAt_map: "cellAt (map (map f) b) p = map_option f (cellAt b p)"
  by (auto simp: cellAt_def Let_def)


lemma cellAt_getBlankBoard:
  "isVectorInBoard cfg p \<Longrightarrow> cellAt (getBlankBoard cfg) p = Some (blankCell (vx p) (vy p))"
  by (auto simp: cellAt_def getBlankBoard_def isVectorInBoard_def Let_def split: if_splits)

section \<open>The direction between two positions\<close>

lemma directionSearchLoop_real:
  "d \<noteq> NONE \<Longrightarrow>
   directionSearchLoop cfg d v2 (moveInDirection cfg p d) fd =
     Some (case fd of Some x \<Rightarrow> Some x
           | None \<Rightarrow> if v2 \<in> set (rayList cfg d p) then Some d else None)"
proof (induction cfg d p arbitrary: fd rule: rayList.induct)
  case (1 cfg d p)
  note real = "1.prems"
  show ?case
  proof (cases "moveInDirection cfg p d")
    case None
    then show ?thesis using real
      by (subst directionSearchLoop.simps) (simp add: rayList_unfold[of d cfg p] split: option.splits)
  next
    case (Some q)
    have r: "rayList cfg d p = q # rayList cfg d q"
      using real Some by (simp add: rayList_unfold[of d cfg p])
    show ?thesis
    proof (cases fd)
      case (Some x)
      then show ?thesis using \<open>moveInDirection cfg p d = Some q\<close>
        by (subst directionSearchLoop.simps) simp
    next
      case None
      have "directionSearchLoop cfg d v2 (moveInDirection cfg p d) fd =
            directionSearchLoop cfg d v2 (moveInDirection cfg q d) (if q = v2 then Some d else None)"
        using None Some by (subst directionSearchLoop.simps) simp
      also have "\<dots> = Some (case (if q = v2 then Some d else None) of Some x \<Rightarrow> Some x
           | None \<Rightarrow> if v2 \<in> set (rayList cfg d q) then Some d else None)"
        by (rule "1.IH"[OF real Some real])
      finally show ?thesis using None r by auto
    qed
  qed
qed

lemma directionForEach_real:
  "\<forall>d \<in> set ds. d \<noteq> NONE \<Longrightarrow>
   directionForEach cfg v1 v2 ds fd =
     Some (case fd of Some x \<Rightarrow> Some x
           | None \<Rightarrow> List.find (\<lambda>d. v2 \<in> set (rayList cfg d v1)) ds)"
proof (induction ds arbitrary: fd)
  case Nil
  then show ?case by (simp split: option.splits)
next
  case (Cons d ds)
  then have d: "d \<noteq> NONE" and ds: "\<forall>d \<in> set ds. d \<noteq> NONE" by auto
  show ?case
    by (simp add: directionSearchLoop_real[OF d] Cons.IH[OF ds] split: option.splits)
qed

lemma getDirectionFrom2Vectors_find:
  "getDirectionFrom2Vectors cfg v1 v2 =
     Inr (List.find (\<lambda>d. v2 \<in> set (rayList cfg d v1)) allDirections)"
proof -
  have "\<forall>d \<in> set allDirections. d \<noteq> NONE" by (simp add: allDirections_def)
  from directionForEach_real[OF this, of cfg v1 v2 None]
  show ?thesis by (simp add: getDirectionFrom2Vectors_def)
qed

section \<open>Rejected selections\<close>

text \<open>
  Claim C7, for the positions of the board. Selecting a cell that is not selectable, or
  a position that no straight line of one of the eight directions from the last
  selected cell reaches, returns \<open>false\<close> without raising and leaves the whole object
  (board flags, selection count, accumulated word, anchor) as it was.
\<close>

theorem selectCell_rejects:
  assumes "wsOutput s = Some out" and "cellAt (board out) p = Some c"
  shows "(\<not> selectable c \<longrightarrow> selectCell s p = (Inr False, s)) \<and>
         (\<forall>l. lastSelectedVector s = Some l \<and>
               (\<forall>d \<in> set allDirections. p \<notin> set (rayList (config s) d l))
               \<longrightarrow> selectCell s p = (Inr False, s))"
proof (intro conjI impI allI)
  assume "\<not> selectable c"
  then show "selectCell s p = (Inr False, s)"
    using assms by (simp add: selectCell_def)
next
  fix l
  assume a: "lastSelectedVector s = Some l \<and>
             (\<forall>d \<in> set allDirections. p \<notin> set (rayList (config s) d l))"
  then have "List.find (\<lambda>d. p \<in> set (rayList (config s) d l)) allDirections = None"
    by (simp add: find_None_iff)
  then have "getDirectionFrom2Vectors (config s) l p = Inr None"
    by (simp add: getDirectionFrom2Vectors_find)
  then show "selectCell s p = (Inr False, s)"
    using assms a by (simp add: selectCell_def)
qed

theorem selectCell_rejects_witness:
  "selectCell playOne \<lparr>vx = 1, vy = 2\<rparr> = (Inr False, playOne) \<and>
   map_option selectable (cellAt (board (the (wsOutput playOne))) \<lparr>vx = 1, vy = 2\<rparr>) = Some False \<and>
   selectCell playStart \<lparr>vx = 0, vy = 0\<rparr> = (Inr True, playOne) \<and>
   lastSelectedVector playOne = Some \<lparr>vx = 0, vy = 0\<rparr> \<and>
   List.find (\<lambda>d. \<lparr>vx = 1, vy = 2\<rparr> \<in> set (rayList (config playOne) d \<lparr>vx = 0, vy = 0\<rparr>))
     allDirections = None"
proof -
  have o: "wsOutput playOne = Some (the (wsOutput playOne))" by code_simp
  have c: "cellAt (board (the (wsOutput playOne))) \<lparr>vx = 1, vy = 2\<rparr>
           = Some (the (cellAt (board (the (wsOutput playOne))) \<lparr>vx = 1, vy = 2\<rparr>))" by code_simp
  have n: "\<not> selectable (the (cellAt (board (the (wsOutput playOne))) \<lparr>vx = 1, vy = 2\<rparr>))" by code_simp
  have r: "selectCell playStart \<lparr>vx = 0, vy = 0\<rparr> = (Inr True, playOne)" by code_simp
  have l: "lastSelectedVector playOne = Some \<lparr>vx = 0, vy = 0\<rparr>" by code_simp
  have m: "map_option selectable (cellAt (board (the (wsOutput playOne))) \<lparr>vx = 1, vy = 2\<rparr>) = Some False"
    by code_simp
  have f: "List.find (\<lambda>d. \<lparr>vx = 1, vy = 2\<rparr> \<in> set (rayList (config playOne) d \<lparr>vx = 0, vy = 0\<rparr>))
     allDirections = None" by code_simp
  show ?thesis using selectCell_rejects[OF o c] n r l m f by blast
qed

text \<open>
  The claim as it was stated, for every position argument, fails: a position outside the
  board matrix makes \<open>selectCell\<close> raise a \<open>TypeError\<close>.
\<close>

theorem selectCell_outside_counterexample:
  "selectCell playStart \<lparr>vx = 0, vy = 6\<rparr> = (Inl TypeError, playStart)"
  by code_simp

section \<open>Random word sourcing\<close>

lemma drawsAccepted_Suc_end:
  "drawsAccepted wc rw k (Suc n) ws =
     pushIfCriteria wc (getRandomWord wc (rw (k + n))) (drawsAccepted wc rw k n ws)"
  by (induction n arbitrary: k ws) simp_all

lemma pushIfCriteria_length:
  "length ws \<le> length (pushIfCriteria wc w ws) \<and> length (pushIfCriteria wc w ws) \<le> Suc (length ws)"
  by (simp add: pushIfCriteria_def split: option.splits)

lemma drawsAccepted_length_mono:
  "i \<le> j \<Longrightarrow> length (drawsAccepted wc rw k i ws) \<le> length (drawsAccepted wc rw k j ws)"
proof (induction j)
  case 0
  then show ?case by simp
next
  case (Suc j)
  show ?case
  proof (cases "i = Suc j")
    case True
    then show ?thesis by simp
  next
    case False
    with Suc have "length (drawsAccepted wc rw k i ws) \<le> length (drawsAccepted wc rw k j ws)" by simp
    also have "\<dots> \<le> length (drawsAccepted wc rw k (Suc j) ws)"
      unfolding drawsAccepted_Suc_end using pushIfCriteria_length by blast
    finally show ?thesis .
  qed
qed

lemma randomWordsLoop_fails:
  "\<forall>j \<le> n. int (length (drawsAccepted wc rw k j ws)) < amount wc \<Longrightarrow>
   randomWordsLoop wc rw k (int (Suc n)) ws = Some (Inl (Error ''Not enough words in dictionary.''))"
proof (induction n arbitrary: k ws)
  case 0
  then show ?case by (subst randomWordsLoop.simps) simp
next
  case (Suc n)
  from Suc.prems have h: "int (length ws) < amount wc" by force
  have "\<forall>j \<le> n. int (length (drawsAccepted wc rw (k + 1) j
           (pushIfCriteria wc (getRandomWord wc (rw k)) ws))) < amount wc"
  proof (intro allI impI)
    fix j assume "j \<le> n"
    then have "Suc j \<le> Suc n" by simp
    with Suc.prems have "int (length (drawsAccepted wc rw k (Suc j) ws)) < amount wc" by blast
    then show "int (length (drawsAccepted wc rw (k + 1) j
           (pushIfCriteria wc (getRandomWord wc (rw k)) ws))) < amount wc" by simp
  qed
  from Suc.IH[OF this] h show ?case
    by (subst randomWordsLoop.simps) (simp add: Let_def)
qed

lemma randomWordsLoop_returns:
  "j \<le> n \<Longrightarrow> amount wc \<le> int (length (drawsAccepted wc rw k j ws)) \<Longrightarrow>
   \<forall>i < j. int (length (drawsAccepted wc rw k i ws)) < amount wc \<Longrightarrow>
   randomWordsLoop wc rw k (int (Suc n)) ws = Some (Inr (drawsAccepted wc rw k j ws))"
proof (induction n arbitrary: k ws j)
  case 0
  then show ?case by (subst randomWordsLoop.simps) simp
next
  case (Suc n)
  show ?case
  proof (cases j)
    case 0
    with Suc.prems show ?thesis by (subst randomWordsLoop.simps) simp
  next
    case (Suc j')
    with Suc.prems have h: "int (length ws) < amount wc" by force
    let ?ws = "pushIfCriteria wc (getRandomWord wc (rw k)) ws"
    have a: "j' \<le> n" using Suc Suc.prems by simp
    have b: "amount wc \<le> int (length (drawsAccepted wc rw (k + 1) j' ?ws))"
      using Suc Suc.prems by simp
    have c: "\<forall>i < j'. int (length (drawsAccepted wc rw (k + 1) i ?ws)) < amount wc"
    proof (intro allI impI)
      fix i assume "i < j'"
      then have "Suc i < j" using Suc by simp
      with Suc.prems have "int (length (drawsAccepted wc rw k (Suc i) ws)) < amount wc" by blast
      then show "int (length (drawsAccepted wc rw (k + 1) i ?ws)) < amount wc" by simp
    qed
    from Suc.IH[OF a b c] h Suc show ?thesis
      by (subst randomWordsLoop.simps) (simp add: Let_def)
  qed
qed

lemma pushIfCriteria_set:
  "w \<in> set (pushIfCriteria wc x ws) \<Longrightarrow> w \<in> set ws \<or> (x = Some w \<and> wordCriteria wc (Some w) ws)"
  by (auto simp: pushIfCriteria_def split: option.splits if_splits)

lemma getRandomWord_in_dictionary:
  "getRandomWord wc r = Some w \<Longrightarrow> w \<in> set (dictionary wc)"
  by (auto simp: getRandomWord_def split: if_splits)

lemma pushIfCriteria_chosenOK:
  "chosenOK wc ws \<Longrightarrow> x = None \<or> (\<exists>w. x = Some w \<and> w \<in> set (dictionary wc)) \<Longrightarrow>
   chosenOK wc (pushIfCriteria wc x ws)"
  by (auto simp: chosenOK_def pushIfCriteria_def wordCriteria_def split: option.splits)

lemma drawsAccepted_chosenOK:
  "chosenOK wc ws \<Longrightarrow> chosenOK wc (drawsAccepted wc rw k n ws)"
proof (induction n arbitrary: k ws)
  case 0
  then show ?case by simp
next
  case (Suc n)
  have "getRandomWord wc (rw k) = None \<or>
        (\<exists>w. getRandomWord wc (rw k) = Some w \<and> w \<in> set (dictionary wc))"
    using getRandomWord_in_dictionary by (cases "getRandomWord wc (rw k)") auto
  from pushIfCriteria_chosenOK[OF Suc.prems this] show ?case
    by (simp add: Suc.IH)
qed

lemma least_reaching:
  assumes "amount wc \<le> int (length (drawsAccepted wc rw k m ws))"
  shows "\<exists>j \<le> m. amount wc \<le> int (length (drawsAccepted wc rw k j ws)) \<and>
               (\<forall>i < j. int (length (drawsAccepted wc rw k i ws)) < amount wc)"
proof -
  let ?P = "\<lambda>j. amount wc \<le> int (length (drawsAccepted wc rw k j ws))"
  have "?P (LEAST j. ?P j)" using assms by (rule LeastI)
  moreover have "(LEAST j. ?P j) \<le> m" using assms by (rule Least_le)
  moreover have "\<forall>i < (LEAST j. ?P j). \<not> ?P i" using not_less_Least by blast
  ultimately show ?thesis by (intro exI[of _ "LEAST j. ?P j"]) auto
qed

lemma first_reaching_length:
  assumes "0 \<le> amount wc" and "amount wc \<le> int (length (drawsAccepted wc rw 0 j []))"
    and "\<forall>i < j. int (length (drawsAccepted wc rw 0 i [])) < amount wc"
  shows "int (length (drawsAccepted wc rw 0 j [])) = amount wc"
proof (cases j)
  case 0
  with assms show ?thesis by simp
next
  case (Suc j')
  with assms(3) have "int (length (drawsAccepted wc rw 0 j' [])) < amount wc" by simp
  moreover have "length (drawsAccepted wc rw 0 (Suc j') []) \<le> Suc (length (drawsAccepted wc rw 0 j' []))"
    unfolding drawsAccepted_Suc_end using pushIfCriteria_length by blast
  ultimately show ?thesis using assms(2) Suc by simp
qed

text \<open>
  Claim C9, as the code has it. Every draw, accepted or not, uses up one of the 100
  tries. When the configured amount has been reached after at most 99 draws, the
  function returns the words chosen up to there: distinct non-empty dictionary words
  within the length range, exactly \<open>amount\<close> of them. When fewer than \<open>amount\<close> words
  have been chosen after 100 draws, it fails with the error. It always ends.
\<close>

theorem getRandomWordsFromDictionary_draws:
  "(\<forall>j \<le> 99. amount wc \<le> int (length (drawsAccepted wc rw 0 j [])) \<and>
              (\<forall>i < j. int (length (drawsAccepted wc rw 0 i [])) < amount wc) \<longrightarrow>
        getRandomWordsFromDictionary wc rw = Inr (drawsAccepted wc rw 0 j []) \<and>
        chosenOK wc (drawsAccepted wc rw 0 j []) \<and>
        (0 \<le> amount wc \<longrightarrow> int (length (drawsAccepted wc rw 0 j [])) = amount wc)) \<and>
   (int (length (drawsAccepted wc rw 0 100 [])) < amount wc \<longrightarrow>
        getRandomWordsFromDictionary wc rw = Inl (Error ''Not enough words in dictionary.'')) \<and>
   getRandomWordsFromDictionary wc rw \<noteq> Inl Diverges"
proof (intro conjI allI impI)
  fix j :: nat
  assume j: "j \<le> 99"
    and h: "amount wc \<le> int (length (drawsAccepted wc rw 0 j [])) \<and>
            (\<forall>i < j. int (length (drawsAccepted wc rw 0 i [])) < amount wc)"
  have "randomWordsLoop wc rw 0 (int (Suc 99)) [] = Some (Inr (drawsAccepted wc rw 0 j []))"
    using randomWordsLoop_returns[OF j] h by blast
  then show "getRandomWordsFromDictionary wc rw = Inr (drawsAccepted wc rw 0 j [])"
    by (simp add: getRandomWordsFromDictionary_def)
  show "chosenOK wc (drawsAccepted wc rw 0 j [])"
    by (rule drawsAccepted_chosenOK) (simp add: chosenOK_def)
  assume "0 \<le> amount wc"
  then show "int (length (drawsAccepted wc rw 0 j [])) = amount wc"
    using first_reaching_length h by blast
next
  assume h: "int (length (drawsAccepted wc rw 0 100 [])) < amount wc"
  have "\<forall>j \<le> 99. int (length (drawsAccepted wc rw 0 j [])) < amount wc"
  proof (intro allI impI)
    fix j :: nat assume "j \<le> 99"
    then have "length (drawsAccepted wc rw 0 j []) \<le> length (drawsAccepted wc rw 0 100 [])"
      by (intro drawsAccepted_length_mono) simp
    with h show "int (length (drawsAccepted wc rw 0 j [])) < amount wc" by simp
  qed
  from randomWordsLoop_fails[OF this]
  show "getRandomWordsFromDictionary wc rw = Inl (Error ''Not enough words in dictionary.'')"
    by (simp add: getRandomWordsFromDictionary_def)
next
  show "getRandomWordsFromDictionary wc rw \<noteq> Inl Diverges"
  proof (cases "amount wc \<le> int (length (drawsAccepted wc rw 0 99 []))")
    case True
    from least_reaching[OF this] obtain j where "j \<le> 99"
      "amount wc \<le> int (length (drawsAccepted wc rw 0 j []))"
      "\<forall>i < j. int (length (drawsAccepted wc rw 0 i [])) < amount wc" by blast
    from randomWordsLoop_returns[OF this] show ?thesis
      by (simp add: getRandomWordsFromDictionary_def)
  next
    case False
    have "\<forall>j \<le> 99. int (length (drawsAccepted wc rw 0 j [])) < amount wc"
    proof (intro allI impI)
      fix j :: nat assume "j \<le> 99"
      then have "length (drawsAccepted wc rw 0 j []) \<le> length (drawsAccepted wc rw 0 99 [])"
        by (intro drawsAccepted_length_mono)
      with False show "int (length (drawsAccepted wc rw 0 j [])) < amount wc" by simp
    qed
    from randomWordsLoop_fails[OF this] show ?thesis
      by (simp add: getRandomWordsFromDictionary_def)
  qed
qed

theorem getRandomWordsFromDictionary_draws_witness:
  "getRandomWordsFromDictionary threeWordsConfig cyclingDraws = Inr [''AB'', ''CD'', ''EF''] \<and>
   drawsAccepted threeWordsConfig cyclingDraws 0 3 [] = [''AB'', ''CD'', ''EF''] \<and>
   chosenOK threeWordsConfig [''AB'', ''CD'', ''EF''] \<and>
   int (length (drawsAccepted threeWordsConfig repeatingDraws 0 100 [])) < amount threeWordsConfig \<and>
   getRandomWordsFromDictionary threeWordsConfig repeatingDraws
     = Inl (Error ''Not enough words in dictionary.'')"
proof -
  have a: "drawsAccepted threeWordsConfig cyclingDraws 0 3 [] = [''AB'', ''CD'', ''EF'']"
    by code_simp
  have b: "\<forall>i < 3. int (length (drawsAccepted threeWordsConfig cyclingDraws 0 i [])) < amount threeWordsConfig"
  proof (intro allI impI)
    fix i :: nat assume "i < 3"
    then have "i = 0 \<or> i = 1 \<or> i = 2" by auto
    moreover have "int (length (drawsAccepted threeWordsConfig cyclingDraws 0 0 [])) < amount threeWordsConfig"
      by code_simp
    moreover have "int (length (drawsAccepted threeWordsConfig cyclingDraws 0 1 [])) < amount threeWordsConfig"
      by code_simp
    moreover have "int (length (drawsAccepted threeWordsConfig cyclingDraws 0 2 [])) < amount threeWordsConfig"
      by code_simp
    ultimately show "int (length (drawsAccepted threeWordsConfig cyclingDraws 0 i [])) < amount threeWordsConfig"
      by auto
  qed
  have c: "amount threeWordsConfig \<le> int (length (drawsAccepted threeWordsConfig cyclingDraws 0 3 []))"
    by code_simp
  have d: "int (length (drawsAccepted threeWordsConfig repeatingDraws 0 100 [])) < amount threeWordsConfig"
    by code_simp
  have e: "(3::nat) \<le> 99" by simp
  from getRandomWordsFromDictionary_draws[of threeWordsConfig cyclingDraws] e b c
  have "getRandomWordsFromDictionary threeWordsConfig cyclingDraws
          = Inr (drawsAccepted threeWordsConfig cyclingDraws 0 3 []) \<and>
        chosenOK threeWordsConfig (drawsAccepted threeWordsConfig cyclingDraws 0 3 [])"
    by blast
  moreover from getRandomWordsFromDictionary_draws[of threeWordsConfig repeatingDraws] d
  have "getRandomWordsFromDictionary threeWordsConfig repeatingDraws
          = Inl (Error ''Not enough words in dictionary.'')"
    by blast
  ultimately show ?thesis using a d by simp
qed

text \<open>
  The claim as it was stated fails: with two of three words chosen on the first two
  draws and the 98 draws after them refused, the function fails after 100 draws, of which
  98 were unsuccessful.
\<close>

theorem getRandomWordsFromDictionary_counterexample:
  "getRandomWordsFromDictionary threeWordsConfig repeatingDraws
     = Inl (Error ''Not enough words in dictionary.'') \<and>
   100 - length (drawsAccepted threeWordsConfig repeatingDraws 0 100 []) = 98"
  by code_simp

section \<open>The retry budget of generate\<close>














section \<open>Placing a word\<close>

lemma real_direction: "d \<noteq> NONE \<longleftrightarrow> d \<in> set allDirections"
  by (cases d) (auto simp: allDirections_def)

lemma stepN_Suc_shift: "stepN (stepN p d 1) d i = stepN p d (Suc i)"
  by (simp add: stepN_stepN)

lemma letterAt_updCell:
  assumes "updCell b p f = Some b'"
  shows "letterAt b' q = (if q = p then letter (f (the (cellAt b p))) else letterAt b q)"
proof -
  from assms obtain c where "cellAt b p = Some c"
    by (auto simp: updCell_def split: option.splits)
  then show ?thesis
    by (simp add: letterAt_def updCell_cellAt[OF assms])
qed














section \<open>The random fill and the words of an attempt\<close>

lemma foldE_inv:
  assumes step: "\<And>a s t. P s \<Longrightarrow> f a s = Inr t \<Longrightarrow> P t"
  shows "foldE f xs s = Inr s' \<Longrightarrow> P s \<Longrightarrow> P s'"
proof (induction xs arbitrary: s)
  case Nil
  then show ?case by simp
next
  case (Cons a xs)
  from Cons.prems(1) obtain t where t: "f a s = Inr t" and r: "foldE f xs t = Inr s'"
    by (auto split: sum.splits)
  from step[OF Cons.prems(2) t] have "P t" .
  from Cons.IH[OF r this] show ?case .
qed









lemma resetCurrentSelection_wf:
  assumes "wsOutput s = Some out" and "wfBoard (config s) (board out)"
  shows "resetCurrentSelection s =
     (Inr (), s\<lparr>selectedCount := 0, selectedDirection := NONE, lastSelectedVector := None,
               wsOutput := Some (out\<lparr>currentWord := [],
                 board := map (map (\<lambda>c. c\<lparr>selected := False, highlighted := False, selectable := True\<rparr>))
                            (board out)\<rparr>)\<rparr>)"
proof -
  define b1 where "b1 = map (map (\<lambda>c::Cell. c\<lparr>selected := False\<rparr>)) (board out)"
  define b2 where "b2 = map (map (\<lambda>c::Cell. c\<lparr>highlighted := False\<rparr>)) b1"
  define b3 where "b3 = map (map (\<lambda>c::Cell. c\<lparr>selectable := True\<rparr>)) b2"
  have wf1: "wfBoard (config s) b1" unfolding b1_def using assms(2) by (rule wfBoard_map)
  have wf2: "wfBoard (config s) b2" unfolding b2_def using wf1 by (rule wfBoard_map)
  have s1: "setCellFieldTo (\<lambda>c. c\<lparr>selected := False\<rparr>) (board out) = Some b1"
    unfolding b1_def by (rule setCellFieldTo_wf[OF assms(2)])
  have s2: "setCellFieldTo (\<lambda>c. c\<lparr>highlighted := False\<rparr>) b1 = Some b2"
    unfolding b2_def by (rule setCellFieldTo_wf[OF wf1])
  have s3: "setCellFieldTo (\<lambda>c. c\<lparr>selectable := True\<rparr>) b2 = Some b3"
    unfolding b3_def by (rule setCellFieldTo_wf[OF wf2])
  have c: "calculateSelectables (config s) 0 None b2 = Inr b3"
    by (simp add: calculateSelectables_def s3)
  have m: "b3 = map (map (\<lambda>c. c\<lparr>selected := False, highlighted := False, selectable := True\<rparr>)) (board out)"
    by (simp add: b3_def b2_def b1_def comp_def)
  have "resetCurrentSelection s =
     (Inr (), s\<lparr>selectedCount := 0, selectedDirection := NONE, lastSelectedVector := None,
               wsOutput := Some (out\<lparr>currentWord := [], board := b3\<rparr>)\<rparr>)"
    using assms(1) by (simp add: resetCurrentSelection_def Let_def s1 s2 c)
  then show ?thesis by (simp only: m)
qed

section \<open>A successful generation\<close>











section \<open>Placed words on the generated board\<close>






section \<open>Overlap policy\<close>



section \<open>Marking the selectable cells\<close>

lemma moveInDirection_inBoard:
  "moveInDirection cfg p d = Some q \<Longrightarrow> isVectorInBoard cfg q"
  by (auto simp: moveInDirection_Some)

lemma markSelectableLoop_real:
  "d \<noteq> NONE \<Longrightarrow> wfBoard cfg b \<Longrightarrow>
   \<exists>b'. markSelectableLoop cfg d (moveInDirection cfg p d) b = Some (Inr b') \<and> wfBoard cfg b' \<and>
        (\<forall>q. cellAt b' q = (if q \<in> set (rayList cfg d p)
                              then map_option (\<lambda>c. c\<lparr>selectable := True\<rparr>) (cellAt b q)
                              else cellAt b q))"
proof (induction cfg d p arbitrary: b rule: rayList.induct)
  case (1 cfg d p)
  note real = "1.prems"(1) and wf = "1.prems"(2)
  show ?case
  proof (cases "moveInDirection cfg p d")
    case None
    then have "rayList cfg d p = []" using real by (simp add: rayList_unfold[of d cfg p])
    moreover have "markSelectableLoop cfg d (moveInDirection cfg p d) b = Some (Inr b)"
      using None by (subst markSelectableLoop.simps) simp
    ultimately show ?thesis using wf by simp
  next
    case (Some n)
    then have nb: "isVectorInBoard cfg n" by (rule moveInDirection_inBoard)
    have r: "rayList cfg d p = n # rayList cfg d n"
      using real Some by (simp add: rayList_unfold[of d cfg p])
    from updCell_Some[OF wf nb] obtain b1 where
      b1: "updCell b n (\<lambda>c. c\<lparr>selectable := True\<rparr>) = Some b1" by blast
    note wf1 = updCell_wfBoard[OF wf b1]
    from "1.IH"[OF real Some real wf1] obtain b' where
      l: "markSelectableLoop cfg d (moveInDirection cfg n d) b1 = Some (Inr b')"
      and wf': "wfBoard cfg b'"
      and c: "\<forall>q. cellAt b' q = (if q \<in> set (rayList cfg d n)
                              then map_option (\<lambda>c. c\<lparr>selectable := True\<rparr>) (cellAt b1 q)
                              else cellAt b1 q)" by blast
    have "markSelectableLoop cfg d (moveInDirection cfg p d) b = Some (Inr b')"
      using Some b1 l by (subst markSelectableLoop.simps) simp
    moreover have "cellAt b' q = (if q \<in> set (rayList cfg d p)
                              then map_option (\<lambda>c. c\<lparr>selectable := True\<rparr>) (cellAt b q)
                              else cellAt b q)" for q
      using c rayList_not_self[of n cfg d]
      by (auto simp: r updCell_cellAt[OF b1] option.map_comp comp_def)
    ultimately show ?thesis using wf' by blast
  qed
qed

lemma markSelectable_real:
  "d \<noteq> NONE \<Longrightarrow> wfBoard cfg b \<Longrightarrow>
   \<exists>b'. markSelectable cfg p d b = Inr b' \<and> wfBoard cfg b' \<and>
        (\<forall>q. cellAt b' q = (if q \<in> set (rayList cfg d p)
                              then map_option (\<lambda>c. c\<lparr>selectable := True\<rparr>) (cellAt b q)
                              else cellAt b q))"
  using markSelectableLoop_real[of d cfg b p] by (auto simp: markSelectable_def)

lemma markSelectable_all:
  "\<forall>d \<in> set ds. d \<noteq> NONE \<Longrightarrow> wfBoard cfg b \<Longrightarrow>
   \<exists>b'. foldE (\<lambda>d. markSelectable cfg p d) ds b = Inr b' \<and> wfBoard cfg b' \<and>
        (\<forall>q. cellAt b' q = (if list_ex (\<lambda>d. q \<in> set (rayList cfg d p)) ds
                              then map_option (\<lambda>c. c\<lparr>selectable := True\<rparr>) (cellAt b q)
                              else cellAt b q))"
proof (induction ds arbitrary: b)
  case Nil
  then show ?case by simp
next
  case (Cons d ds)
  then have d: "d \<noteq> NONE" and ds: "\<forall>d \<in> set ds. d \<noteq> NONE" by auto
  from markSelectable_real[OF d Cons.prems(2), of p] obtain b1 where
    m: "markSelectable cfg p d b = Inr b1" and wf1: "wfBoard cfg b1"
    and c1: "\<forall>q. cellAt b1 q = (if q \<in> set (rayList cfg d p)
                              then map_option (\<lambda>c. c\<lparr>selectable := True\<rparr>) (cellAt b q)
                              else cellAt b q)" by blast
  from Cons.IH[OF ds wf1] obtain b' where
    f: "foldE (\<lambda>d. markSelectable cfg p d) ds b1 = Inr b'" and wf': "wfBoard cfg b'"
    and c: "\<forall>q. cellAt b' q = (if list_ex (\<lambda>d. q \<in> set (rayList cfg d p)) ds
                              then map_option (\<lambda>c. c\<lparr>selectable := True\<rparr>) (cellAt b1 q)
                              else cellAt b1 q)" by blast
  have "cellAt b' q = (if list_ex (\<lambda>d. q \<in> set (rayList cfg d p)) (d # ds)
                              then map_option (\<lambda>c. c\<lparr>selectable := True\<rparr>) (cellAt b q)
                              else cellAt b q)" for q
    using c c1 by (auto simp: option.map_comp comp_def)
  then show ?case using m f wf' by auto
qed

lemma adjacentSelectedLoop_find:
  "wfBoard cfg b \<Longrightarrow>
   adjacentSelectedLoop cfg b v ds =
     Inr (List.find (\<lambda>e. case moveInDirection cfg v e of None \<Rightarrow> False
                          | Some n \<Rightarrow> selectedAt b n) ds)"
proof (induction ds)
  case Nil
  then show ?case by simp
next
  case (Cons d ds)
  show ?case
  proof (cases "moveInDirection cfg v d")
    case None
    then show ?thesis using Cons by simp
  next
    case (Some n)
    then have "isVectorInBoard cfg n" by (rule moveInDirection_inBoard)
    from cellAt_inBoard[OF Cons.prems this] obtain c where "cellAt b n = Some c" by blast
    then show ?thesis using Some Cons by (simp add: selectedAt_def)
  qed
qed

lemma selectedAt_cong:
  "(\<forall>q. map_option selected (cellAt b' q) = map_option selected (cellAt b q)) \<Longrightarrow>
   selectedAt b' = selectedAt b"
proof
  fix q assume "\<forall>q. map_option selected (cellAt b' q) = map_option selected (cellAt b q)"
  then have "map_option selected (cellAt b' q) = map_option selected (cellAt b q)" by blast
  then show "selectedAt b' q = selectedAt b q"
    by (cases "cellAt b' q"; cases "cellAt b q") (auto simp: selectedAt_def)
qed

lemma establishedDirection_cong:
  assumes "selectedAt b' = selectedAt b"
  shows "establishedDirection cfg b' p = establishedDirection cfg b p"
  unfolding establishedDirection_def assms ..

lemma shouldBeSelectable_cong:
  assumes "selectedAt b' = selectedAt b"
  shows "shouldBeSelectable cfg b' cnt lastSel q = shouldBeSelectable cfg b cnt lastSel q"
  unfolding shouldBeSelectable_def establishedDirection_cong[OF assms] ..

section \<open>Recalculating the selectable cells\<close>

lemma getInverseDirection_real: "getInverseDirection e = Some d \<Longrightarrow> d \<noteq> NONE"
  by (cases e) auto

lemma calculateSelectables_zero:
  assumes "wfBoard cfg b"
  shows "calculateSelectables cfg 0 lastSel b = Inr (map (map (\<lambda>c. c\<lparr>selectable := True\<rparr>)) b)"
  by (cases lastSel) (simp_all add: calculateSelectables_def setCellFieldTo_wf[OF assms])

lemma calculateSelectables_some:
  assumes wf: "wfBoard cfg b" and real: "NONE \<notin> set (allowedDirections cfg)" and cnt: "0 < cnt"
  shows "\<exists>b'. calculateSelectables cfg cnt (Some p) b = Inr b' \<and> wfBoard cfg b' \<and>
           (\<forall>q. cellAt b' q = map_option (\<lambda>c. c\<lparr>selectable := shouldBeSelectable cfg b cnt (Some p) q\<rparr>)
                                 (cellAt b q))"
proof -
  define b0 where "b0 = map (map (\<lambda>c::Cell. c\<lparr>selectable := False\<rparr>)) b"
  have s0: "setCellFieldTo (\<lambda>c. c\<lparr>selectable := False\<rparr>) b = Some b0"
    unfolding b0_def by (rule setCellFieldTo_wf[OF wf])
  have wf0: "wfBoard cfg b0" unfolding b0_def using wf by (rule wfBoard_map)
  have c0: "cellAt b0 q = map_option (\<lambda>c. c\<lparr>selectable := False\<rparr>) (cellAt b q)" for q
    unfolding b0_def by (rule cellAt_map)
  have sel0: "selectedAt b0 = selectedAt b"
    by (rule selectedAt_cong) (simp add: c0 option.map_comp comp_def)
  show ?thesis
  proof (cases "cnt = 1")
    case True
    have r: "\<forall>d \<in> set (allowedDirections cfg). d \<noteq> NONE" using real by auto
    from markSelectable_all[OF r wf0, of p] obtain b' where
      f: "foldE (\<lambda>d. markSelectable cfg p d) (allowedDirections cfg) b0 = Inr b'"
      and wf': "wfBoard cfg b'"
      and c: "\<forall>q. cellAt b' q = (if list_ex (\<lambda>d. q \<in> set (rayList cfg d p)) (allowedDirections cfg)
                              then map_option (\<lambda>c. c\<lparr>selectable := True\<rparr>) (cellAt b0 q)
                              else cellAt b0 q)" by blast
    have "calculateSelectables cfg cnt (Some p) b = Inr b'"
      using True s0 f by (simp add: calculateSelectables_def)
    moreover have "cellAt b' q
        = map_option (\<lambda>c. c\<lparr>selectable := shouldBeSelectable cfg b cnt (Some p) q\<rparr>) (cellAt b q)" for q
      using c True by (auto simp: c0 shouldBeSelectable_def option.map_comp comp_def)
    ultimately show ?thesis using wf' by blast
  next
    case False
    with cnt have gt: "1 < cnt" by simp
    have adj: "getAdjacentSelectedVectorDirection cfg b0 p
                 = Inr (List.find (\<lambda>e. case moveInDirection cfg p e of None \<Rightarrow> False
                                        | Some n \<Rightarrow> selectedAt b n) adjacentDirections)"
      unfolding getAdjacentSelectedVectorDirection_def adjacentSelectedLoop_find[OF wf0] sel0 ..
    show ?thesis
    proof (cases "establishedDirection cfg b p")
      case None
      then have "calculateSelectables cfg cnt (Some p) b = Inr b0"
        using gt False s0 adj
        by (auto simp: calculateSelectables_def establishedDirection_def split: option.splits)
      moreover have "cellAt b0 q
        = map_option (\<lambda>c. c\<lparr>selectable := shouldBeSelectable cfg b cnt (Some p) q\<rparr>) (cellAt b q)" for q
        using None gt False by (simp add: c0 shouldBeSelectable_def)
      ultimately show ?thesis using wf0 by blast
    next
      case (Some d)
      then obtain e where e: "List.find (\<lambda>e. case moveInDirection cfg p e of None \<Rightarrow> False
                                        | Some n \<Rightarrow> selectedAt b n) adjacentDirections = Some e"
        and inv: "getInverseDirection e = Some d"
        by (auto simp: establishedDirection_def split: option.splits)
      from getInverseDirection_real[OF inv] have d: "d \<noteq> NONE" .
      from markSelectable_real[OF d wf0, of p] obtain b' where
        m: "markSelectable cfg p d b0 = Inr b'" and wf': "wfBoard cfg b'"
        and c: "\<forall>q. cellAt b' q = (if q \<in> set (rayList cfg d p)
                              then map_option (\<lambda>c. c\<lparr>selectable := True\<rparr>) (cellAt b0 q)
                              else cellAt b0 q)" by blast
      have "calculateSelectables cfg cnt (Some p) b = Inr b'"
        using gt False s0 adj e inv m by (simp add: calculateSelectables_def)
      moreover have "cellAt b' q
        = map_option (\<lambda>c. c\<lparr>selectable := shouldBeSelectable cfg b cnt (Some p) q\<rparr>) (cellAt b q)" for q
        using c Some gt False by (auto simp: c0 shouldBeSelectable_def option.map_comp comp_def)
      ultimately show ?thesis using wf' by blast
    qed
  qed
qed

lemma selectablesOK_after:
  assumes c: "\<forall>q. cellAt b' q = map_option (\<lambda>c. c\<lparr>selectable := shouldBeSelectable cfg b cnt ls q\<rparr>)
                                   (cellAt b q)"
    and s: "wsOutput s = Some out" "board out = b'" "config s = cfg" "selectedCount s = cnt"
           "lastSelectedVector s = ls"
  shows "selectablesOK s"
proof -
  have "selectedAt b' = selectedAt b"
    by (rule selectedAt_cong) (simp add: c option.map_comp comp_def)
  from shouldBeSelectable_cong[OF this]
  have e: "shouldBeSelectable cfg b' cnt ls q = shouldBeSelectable cfg b cnt ls q" for q .
  have "selectable x = shouldBeSelectable cfg b' cnt ls q" if "cellAt b' q = Some x" for q x
    using that c[rule_format, of q] e[of q] by (cases "cellAt b q") auto
  then show ?thesis using s by (simp add: selectablesOK_def)
qed

section \<open>The walk of a selection\<close>

lemma selectWalkLoop_found:
  "selectWalkLoop cfg d p le True st = Some (Inr st)"
  by (subst selectWalkLoop.simps) (simp split: option.splits)

lemma letterAt_selected_upd:
  assumes "updCell b m (\<lambda>c. c\<lparr>selected := True\<rparr>) = Some b1"
  shows "letterAt b1 q = letterAt b q"
proof -
  from assms obtain c where "cellAt b m = Some c"
    by (auto simp: updCell_def split: option.splits)
  then show ?thesis by (simp add: letterAt_updCell[OF assms]) (simp add: letterAt_def)
qed

lemma selectWalkLoop_real:
  "d \<noteq> NONE \<Longrightarrow> wfBoard cfg b \<Longrightarrow>
   \<exists>b'. selectWalkLoop cfg d p (moveInDirection cfg v d) False (b, cw, n)
           = Some (Inr (b', cw @ concat (map (letterAt b) (walkCells cfg d v p)),
                        n + length (walkCells cfg d v p))) \<and>
        wfBoard cfg b' \<and>
        (\<forall>q. cellAt b' q = (if q \<in> set (walkCells cfg d v p)
                              then map_option (\<lambda>c. c\<lparr>selected := True\<rparr>) (cellAt b q)
                              else cellAt b q))"
proof (induction cfg d v arbitrary: b cw n rule: rayList.induct)
  case (1 cfg d v)
  note real = "1.prems"(1) and wf = "1.prems"(2)
  show ?case
  proof (cases "moveInDirection cfg v d")
    case None
    then have "walkCells cfg d v p = []"
      using real by (simp add: walkCells_def rayList_unfold[of d cfg v])
    moreover have "selectWalkLoop cfg d p (moveInDirection cfg v d) False (b, cw, n) = Some (Inr (b, cw, n))"
      using None by (subst selectWalkLoop.simps) simp
    ultimately show ?thesis using wf by simp
  next
    case (Some m)
    then have mb: "isVectorInBoard cfg m" by (rule moveInDirection_inBoard)
    have r: "rayList cfg d v = m # rayList cfg d m"
      using real Some by (simp add: rayList_unfold[of d cfg v])
    from updCell_Some[OF wf mb] obtain b1 where
      b1: "updCell b m (\<lambda>c. c\<lparr>selected := True\<rparr>) = Some b1" by blast
    note wf1 = updCell_wfBoard[OF wf b1]
    from cellAt_inBoard[OF wf1 mb] obtain c1 where c1: "cellAt b1 m = Some c1" by blast
    have l1: "letter c1 = letterAt b m"
      using letterAt_selected_upd[OF b1, of m] c1 by (simp add: letterAt_def)
    have step: "selectWalkLoop cfg d p (moveInDirection cfg v d) False (b, cw, n)
                = selectWalkLoop cfg d p (moveInDirection cfg m d) (m = p) (b1, cw @ letterAt b m, n + 1)"
      using Some b1 c1 l1 by (subst selectWalkLoop.simps) simp
    show ?thesis
    proof (cases "m = p")
      case True
      have w: "walkCells cfg d v p = [m]" using True by (simp add: walkCells_def r)
      have "selectWalkLoop cfg d p (moveInDirection cfg v d) False (b, cw, n)
              = Some (Inr (b1, cw @ letterAt b m, n + 1))"
        using step True by (simp add: selectWalkLoop_found)
      then show ?thesis using wf1 by (auto simp: w updCell_cellAt[OF b1])
    next
      case False
      have w: "walkCells cfg d v p = m # walkCells cfg d m p"
        using False by (simp add: walkCells_def r)
      from "1.IH"[OF real Some real wf1, of "cw @ letterAt b m" "n + 1"] obtain b' where
        l: "selectWalkLoop cfg d p (moveInDirection cfg m d) False (b1, cw @ letterAt b m, n + 1)
              = Some (Inr (b', (cw @ letterAt b m) @ concat (map (letterAt b1) (walkCells cfg d m p)),
                           n + 1 + length (walkCells cfg d m p)))"
        and wf': "wfBoard cfg b'"
        and c: "\<forall>q. cellAt b' q = (if q \<in> set (walkCells cfg d m p)
                              then map_option (\<lambda>c. c\<lparr>selected := True\<rparr>) (cellAt b1 q)
                              else cellAt b1 q)" by blast
      have le: "letterAt b1 = letterAt b" using letterAt_selected_upd[OF b1] by (simp add: fun_eq_iff)
      have "selectWalkLoop cfg d p (moveInDirection cfg v d) False (b, cw, n)
              = Some (Inr (b', cw @ concat (map (letterAt b) (walkCells cfg d v p)),
                           n + length (walkCells cfg d v p)))"
        using step False l by (simp add: w le)
      moreover have "cellAt b' q = (if q \<in> set (walkCells cfg d v p)
                              then map_option (\<lambda>c. c\<lparr>selected := True\<rparr>) (cellAt b q)
                              else cellAt b q)" for q
        using c by (auto simp: w updCell_cellAt[OF b1] option.map_comp comp_def)
      ultimately show ?thesis using wf' by blast
    qed
  qed
qed

lemma selectWalk_real:
  "d \<noteq> NONE \<Longrightarrow> wfBoard cfg b \<Longrightarrow>
   \<exists>b'. selectWalk cfg d v p (b, cw, n)
           = Inr (b', cw @ concat (map (letterAt b) (walkCells cfg d v p)),
                  n + length (walkCells cfg d v p)) \<and>
        wfBoard cfg b' \<and>
        (\<forall>q. cellAt b' q = (if q \<in> set (walkCells cfg d v p)
                              then map_option (\<lambda>c. c\<lparr>selected := True\<rparr>) (cellAt b q)
                              else cellAt b q))"
  using selectWalkLoop_real[of d cfg b p v cw n] by (auto simp: selectWalk_def)

section \<open>Selectable cells after the operations of play\<close>

lemma calculateSelectables_rule:
  assumes wf: "wfBoard cfg b" and real: "NONE \<notin> set (allowedDirections cfg)"
  shows "\<exists>b'. calculateSelectables cfg cnt (Some p) b = Inr b' \<and> wfBoard cfg b' \<and>
           (\<forall>q. cellAt b' q = map_option (\<lambda>c. c\<lparr>selectable := shouldBeSelectable cfg b cnt (Some p) q\<rparr>)
                                 (cellAt b q))"
proof (cases "cnt = 0")
  case True
  then show ?thesis
    using calculateSelectables_zero[OF wf, of "Some p"] wfBoard_map[OF wf]
    by (simp add: cellAt_map shouldBeSelectable_def)
next
  case False
  then show ?thesis using calculateSelectables_some[OF wf real] by simp
qed

lemma upToIncl_nonempty: "xs \<noteq> [] \<Longrightarrow> upToIncl p xs \<noteq> []"
  by (cases xs) auto

lemma selectCell_accepted:
  assumes o: "wsOutput s = Some out" and wf: "wfBoard (config s) (board out)"
    and real: "NONE \<notin> set (allowedDirections (config s))"
    and acc: "selectCell s p = (Inr True, s')"
  shows "selectablesOK s' \<and> selectedCount s < selectedCount s' \<and> config s' = config s \<and>
         (\<exists>out'. wsOutput s' = Some out' \<and> wfBoard (config s) (board out') \<and> words out' = words out)"
proof -
  from acc o obtain c0 where c0: "cellAt (board out) p = Some c0"
    by (cases "cellAt (board out) p") (auto simp: selectCell_def)
  from acc o c0 have sel: "selectable c0" by (auto simp: selectCell_def split: if_splits)
  have pb: "isVectorInBoard (config s) p" using cellAt_Some_inBoard[OF wf c0] .
  show ?thesis
  proof (cases "lastSelectedVector s")
    case None
    from updCell_Some[OF wf pb] obtain b1 where
      b1: "updCell (board out) p (\<lambda>c. c\<lparr>selected := True\<rparr>) = Some b1" by blast
    note wf1 = updCell_wfBoard[OF wf b1]
    from cellAt_inBoard[OF wf1 pb] obtain c1 where c1: "cellAt b1 p = Some c1" by blast
    from calculateSelectables_rule[OF wf1 real, of "selectedCount s + 1" p] obtain b2 where
      cs: "calculateSelectables (config s) (selectedCount s + 1) (Some p) b1 = Inr b2"
      and wf2: "wfBoard (config s) b2"
      and c: "\<forall>q. cellAt b2 q = map_option (\<lambda>c. c\<lparr>selectable :=
                  shouldBeSelectable (config s) b1 (selectedCount s + 1) (Some p) q\<rparr>) (cellAt b1 q)"
      by blast
    let ?out' = "out\<lparr>board := b2, currentWord := currentWord out @ letter c1\<rparr>"
    have s': "s' = s\<lparr>wsOutput := Some ?out', selectedCount := selectedCount s + 1,
                      lastSelectedVector := Some p\<rparr>"
      using acc o c0 sel None b1 c1 cs by (auto simp: selectCell_def Let_def)
    have "selectablesOK s'"
      by (rule selectablesOK_after[OF c, where out = "?out'"]) (simp_all add: s')
    then show ?thesis using s' wf2 by simp
  next
    case (Some lsv)
    from acc o c0 sel Some obtain d where
      fd: "List.find (\<lambda>d. p \<in> set (rayList (config s) d lsv)) allDirections = Some d"
      by (cases "List.find (\<lambda>d. p \<in> set (rayList (config s) d lsv)) allDirections")
         (auto simp: selectCell_def getDirectionFrom2Vectors_find)
    then have din: "d \<in> set allDirections" and pr: "p \<in> set (rayList (config s) d lsv)"
      by (auto simp: find_Some_iff)
    from din have d: "d \<noteq> NONE" by (simp add: real_direction)
    let ?cells = "walkCells (config s) d lsv p"
    from pr have ne: "?cells \<noteq> []"
      unfolding walkCells_def by (intro upToIncl_nonempty) auto
    from selectWalk_real[OF d wf, of lsv p "currentWord out" "selectedCount s"] obtain b1 where
      sw: "selectWalk (config s) d lsv p (board out, currentWord out, selectedCount s)
             = Inr (b1, currentWord out @ concat (map (letterAt (board out)) ?cells),
                    selectedCount s + length ?cells)"
      and wf1: "wfBoard (config s) b1" by blast
    from calculateSelectables_rule[OF wf1 real, of "selectedCount s + length ?cells" p] obtain b2 where
      cs: "calculateSelectables (config s) (selectedCount s + length ?cells) (Some p) b1 = Inr b2"
      and wf2: "wfBoard (config s) b2"
      and c: "\<forall>q. cellAt b2 q = map_option (\<lambda>c. c\<lparr>selectable :=
                  shouldBeSelectable (config s) b1 (selectedCount s + length ?cells) (Some p) q\<rparr>)
                    (cellAt b1 q)"
      by blast
    let ?out' = "out\<lparr>board := b2,
                     currentWord := currentWord out @ concat (map (letterAt (board out)) ?cells)\<rparr>"
    have s': "s' = s\<lparr>wsOutput := Some ?out', selectedCount := selectedCount s + length ?cells,
                      lastSelectedVector := Some p\<rparr>"
      using acc o c0 sel Some fd sw cs
      by (auto simp: selectCell_def Let_def getDirectionFrom2Vectors_find)
    have "selectablesOK s'"
      by (rule selectablesOK_after[OF c, where out = "?out'"]) (simp_all add: s')
    then show ?thesis using s' wf2 ne by simp
  qed
qed

lemma selectCell_rejected:
  "selectCell s p = (Inr False, s') \<Longrightarrow> s' = s"
  by (auto simp: selectCell_def Let_def split: option.splits if_splits sum.splits prod.splits)

lemma resetCurrentSelection_selectablesOK:
  assumes "wsOutput s = Some out" and "wfBoard (config s) (board out)"
  shows "\<exists>s'. resetCurrentSelection s = (Inr (), s') \<and> selectablesOK s' \<and> selectedCount s' = 0 \<and>
              config s' = config s \<and>
              (\<exists>out'. wsOutput s' = Some out' \<and> wfBoard (config s) (board out') \<and>
                      words out' = words out)"
  unfolding resetCurrentSelection_wf[OF assms]
  using wfBoard_map[OF assms(2)]
  by (auto simp: selectablesOK_def shouldBeSelectable_def cellAt_map)

lemma foldE_updCell_wf:
  assumes "foldE (\<lambda>p b. case updCell b p f of None \<Rightarrow> Inl TypeError | Some b' \<Rightarrow> Inr b') ps b = Inr b'"
    and "wfBoard cfg b"
  shows "wfBoard cfg b'"
proof -
  have step: "wfBoard cfg t" if "wfBoard cfg s'"
    and "(case updCell s' a f of None \<Rightarrow> Inl TypeError | Some b' \<Rightarrow> Inr b') = Inr t" for a s' t
    using that updCell_wfBoard[of cfg s' a f t] by (auto split: option.splits)
  from foldE_inv[of "wfBoard cfg" "\<lambda>p b. case updCell b p f of None \<Rightarrow> Inl TypeError | Some b' \<Rightarrow> Inr b'",
                 OF step assms(1) assms(2)]
  show ?thesis .
qed

lemma showWord_wf:
  assumes "showWord out t sub = Inr (w, out')" and "wfBoard cfg (board out)"
  shows "wfBoard cfg (board out')"
  using assms foldE_updCell_wf[of _ "wpos (words out ! nat (getWordIndex out t))" "board out" _ cfg]
  by (auto simp: showWord_def setWordAsFound_def discoverWord_def Let_def
           split: if_splits sum.splits)

lemma submitCurrentWord_selectablesOK:
  assumes o: "wsOutput s = Some out" and wf: "wfBoard (config s) (board out)"
    and sub: "submitCurrentWord s = (Inr w, s')"
  shows "selectablesOK s' \<and> selectedCount s' = 0"
proof -
  from sub o obtain win out1 where sw: "showWord out (currentWord out) True = Inr (win, out1)"
    by (cases "showWord out (currentWord out) True") (auto simp: submitCurrentWord_def)
  let ?s1 = "s\<lparr>wsOutput := Some out1\<rparr>"
  have wf1: "wfBoard (config ?s1) (board out1)" using showWord_wf[OF sw wf] by simp
  have o1: "wsOutput ?s1 = Some out1" by simp
  from resetCurrentSelection_selectablesOK[OF o1 wf1] obtain s2 out2 where
    rs: "resetCurrentSelection ?s1 = (Inr (), s2)" and ok: "selectablesOK s2"
    and z: "selectedCount s2 = 0" and o2: "wsOutput s2 = Some out2" by auto
  from sub o sw rs o2 have s': "s' = s2\<lparr>wsOutput := Some (snd (checkEnd (config s2) out2))\<rparr>"
    by (auto simp: submitCurrentWord_def)
  have "selectablesOK s'"
    using ok o2 by (simp add: s' selectablesOK_def checkEnd_def Let_def)
  then show ?thesis using z s' by simp
qed

text \<open>
  What the code does after the operations of play, on a generated puzzle with allowed
  directions among the eight real ones: after \<open>resetCurrentSelection\<close>, after an accepted
  \<open>selectCell\<close> and after \<open>submitCurrentWord\<close> the selectable cells are exactly those of
  \<open>shouldBeSelectable\<close> for the selection count; with 2 or more cells selected these are
  all the cells of the ray that leaves the last selected cell in the established
  direction. A rejected \<open>selectCell\<close> changes nothing.
\<close>

theorem selectables_follow_rule:
  assumes "wsOutput s = Some out" and "wfBoard (config s) (board out)"
    and "NONE \<notin> set (allowedDirections (config s))"
  shows "(\<exists>s'. resetCurrentSelection s = (Inr (), s') \<and> selectablesOK s' \<and> selectedCount s' = 0) \<and>
         (\<forall>p s'. selectCell s p = (Inr True, s') \<longrightarrow>
                  selectablesOK s' \<and> selectedCount s < selectedCount s') \<and>
         (\<forall>p s'. selectCell s p = (Inr False, s') \<longrightarrow> s' = s) \<and>
         (\<forall>w s'. submitCurrentWord s = (Inr w, s') \<longrightarrow> selectablesOK s' \<and> selectedCount s' = 0)"
  using resetCurrentSelection_selectablesOK[OF assms(1,2)]
    selectCell_accepted[OF assms] selectCell_rejected[of s]
    submitCurrentWord_selectablesOK[OF assms(1,2)]
  by blast

theorem selectables_follow_rule_witness:
  "selectCell playOne \<lparr>vx = 0, vy = 1\<rparr> = (Inr True, playTwo) \<and> selectablesOK playTwo \<and>
   selectedCount playOne < selectedCount playTwo \<and>
   selectCell playOne \<lparr>vx = 1, vy = 2\<rparr> = (Inr False, playOne) \<and>
   fst (submitCurrentWord playOne) = Inr False \<and>
   selectablesOK (snd (submitCurrentWord playOne)) \<and>
   selectedCount (snd (submitCurrentWord playOne)) = 0"
proof -
  have o: "wsOutput playOne = Some (the (wsOutput playOne))" by code_simp
  have wf: "wfBoard (config playOne) (board (the (wsOutput playOne)))" by code_simp
  have real: "NONE \<notin> set (allowedDirections (config playOne))" by code_simp
  have a: "selectCell playOne \<lparr>vx = 0, vy = 1\<rparr> = (Inr True, playTwo)" by code_simp
  have r: "selectCell playOne \<lparr>vx = 1, vy = 2\<rparr> = (Inr False, playOne)" by code_simp
  have f: "fst (submitCurrentWord playOne) = Inr False" by code_simp
  then have sb: "submitCurrentWord playOne = (Inr False, snd (submitCurrentWord playOne))"
    by (cases "submitCurrentWord playOne") simp
  from selectables_follow_rule[OF o wf real] a r f sb show ?thesis by blast
qed

text \<open>
  Claim C4. With 2 or more cells selected only the single next cell in the established
  direction is to be selectable, as the comment in \<open>calculateSelectables\<close> says too
  (only one cell is allowed, the one following on that direction). The loop marks the
  whole ray: after the cells (0,0) and (0,1) have been selected, the cell (0,2) next to
  the last one is selectable, and so is the cell (0,5) at the end of the row.
\<close>

theorem calculateSelectables_whole_ray:
  "selectedCount playTwo = 2 \<and> lastSelectedVector playTwo = Some \<lparr>vx = 0, vy = 1\<rparr> \<and>
   map_option selectable (cellAt (board (the (wsOutput playTwo))) \<lparr>vx = 0, vy = 2\<rparr>) = Some True \<and>
   map_option selectable (cellAt (board (the (wsOutput playTwo))) \<lparr>vx = 0, vy = 5\<rparr>) = Some True"
  by code_simp

end
